theory Spec2Isabelle
  imports Main "HOL-Library.Word"
begin

section \<open>The heap of mutable\_chain.cpp\<close>

text \<open>
  \<^verbatim>\<open>mutable_chain.cpp\<close> builds a doubly-linked list out of three kinds of
  objects, all held through \<^verbatim>\<open>std::shared_ptr\<close>: nodes (\<^verbatim>\<open>ListNode<T>\<close>),
  one-slot cells (\<^verbatim>\<open>Ref<ListNode<T>>\<close>) and the container (\<^verbatim>\<open>MutableList<T>\<close>).
  Two nodes may share a cell and a cell is overwritten in place, so the model is an
  explicit store: an object's address is its index in the list of all objects of its
  kind, allocation appends to that list, and an empty \<^verbatim>\<open>shared_ptr\<close> is \<open>None\<close>.
  Objects are never removed from the store: reference counting only frees what
  nothing can reach any more.

  A fault is what a call can end in instead of returning. The source contains no
  \<^verbatim>\<open>throw\<close>: \<open>InvalidOperation\<close> and \<open>InvalidState\<close> are the two errors a
  caller could be handed, and no function below produces them. \<open>NullDereference\<close> is
  \<^verbatim>\<open>->\<close> applied to an empty \<^verbatim>\<open>shared_ptr\<close> (undefined behaviour in C++).
  \<open>WildPointer\<close> is an address outside the store, which no \<^verbatim>\<open>shared_ptr\<close> of a
  running program holds; it makes the store lookups total.
\<close>

datatype fault = InvalidOperation | InvalidState | NullDereference | WildPointer

text \<open>Sequencing: the first fault ends the call.\<close>

fun and_then :: "fault + 'a \<Rightarrow> ('a \<Rightarrow> fault + 'b) \<Rightarrow> fault + 'b" where
  "and_then (Inl e) f = Inl e"
| "and_then (Inr x) f = f x"

type_synonym NodePtr = "nat option"
type_synonym RefPtr = "nat option"

text \<open>\<^verbatim>\<open>struct ListNode { RefPtr next; RefPtr prev; T value; }\<close>\<close>

record 'a ListNode =
  "next" :: RefPtr
  prev :: RefPtr
  val :: 'a

text \<open>
  \<^verbatim>\<open>class MutableList { NodePtr head_; NodePtr tail_; size_type size_ = 0; }\<close>
  together with the store it lives in: \<open>nodes\<close> holds every \<^verbatim>\<open>ListNode\<close> and
  \<open>refs\<close> the \<^verbatim>\<open>ptr\<close> member of every \<^verbatim>\<open>Ref\<close>. \<^verbatim>\<open>size_type\<close> is
  \<^verbatim>\<open>std::size_t\<close>, 64 bits wide, and wraps around.
\<close>

record 'a MutableList =
  nodes :: "'a ListNode list"
  refs :: "NodePtr list"
  m_head :: NodePtr
  m_tail :: NodePtr
  m_size :: "64 word"

subsection \<open>Reads and writes through shared pointers\<close>

text \<open>\<^verbatim>\<open>p->\<close> for a \<^verbatim>\<open>NodePtr p\<close>.\<close>

definition node_at :: "'a MutableList \<Rightarrow> NodePtr \<Rightarrow> fault + 'a ListNode" where
  "node_at s p =
     (case p of
        None \<Rightarrow> Inl NullDereference
      | Some a \<Rightarrow> if a < length (nodes s) then Inr (nodes s ! a) else Inl WildPointer)"

text \<open>\<^verbatim>\<open>r->ptr\<close>, read, for a \<^verbatim>\<open>RefPtr r\<close>.\<close>

definition ref_at :: "'a MutableList \<Rightarrow> RefPtr \<Rightarrow> fault + NodePtr" where
  "ref_at s r =
     (case r of
        None \<Rightarrow> Inl NullDereference
      | Some c \<Rightarrow> if c < length (refs s) then Inr (refs s ! c) else Inl WildPointer)"

text \<open>\<^verbatim>\<open>r->ptr = v\<close>: the cell keeps its address, its content changes.\<close>

definition ref_write :: "'a MutableList \<Rightarrow> RefPtr \<Rightarrow> NodePtr \<Rightarrow> fault + 'a MutableList" where
  "ref_write s r v =
     (case r of
        None \<Rightarrow> Inl NullDereference
      | Some c \<Rightarrow>
          if c < length (refs s) then Inr (s\<lparr>refs := (refs s)[c := v]\<rparr>)
          else Inl WildPointer)"

text \<open>\<^verbatim>\<open>p->next->ptr\<close> and \<^verbatim>\<open>p->prev->ptr\<close>, read.\<close>

definition next_ptr :: "'a MutableList \<Rightarrow> NodePtr \<Rightarrow> fault + NodePtr" where
  "next_ptr s p = and_then (node_at s p) (\<lambda>n. ref_at s (next n))"

definition prev_ptr :: "'a MutableList \<Rightarrow> NodePtr \<Rightarrow> fault + NodePtr" where
  "prev_ptr s p = and_then (node_at s p) (\<lambda>n. ref_at s (prev n))"

text \<open>\<^verbatim>\<open>p->next->ptr = v\<close> and \<^verbatim>\<open>p->prev->ptr = v\<close>.\<close>

definition next_ptr_assign :: "'a MutableList \<Rightarrow> NodePtr \<Rightarrow> NodePtr \<Rightarrow> fault + 'a MutableList" where
  "next_ptr_assign s p v =
     and_then (node_at s p) (\<lambda>n. ref_write s (next n) v)"

definition prev_ptr_assign :: "'a MutableList \<Rightarrow> NodePtr \<Rightarrow> NodePtr \<Rightarrow> fault + 'a MutableList" where
  "prev_ptr_assign s p v =
     and_then (node_at s p) (\<lambda>n. ref_write s (prev n) v)"

text \<open>\<^verbatim>\<open>p->next = r\<close> and \<^verbatim>\<open>p->prev = r\<close>: the node is given another cell.\<close>

definition set_next :: "'a MutableList \<Rightarrow> NodePtr \<Rightarrow> RefPtr \<Rightarrow> fault + 'a MutableList" where
  "set_next s p r =
     (case p of
        None \<Rightarrow> Inl NullDereference
      | Some a \<Rightarrow>
          if a < length (nodes s)
          then Inr (s\<lparr>nodes := (nodes s)[a := (nodes s ! a)\<lparr>next := r\<rparr>]\<rparr>)
          else Inl WildPointer)"

definition set_prev :: "'a MutableList \<Rightarrow> NodePtr \<Rightarrow> RefPtr \<Rightarrow> fault + 'a MutableList" where
  "set_prev s p r =
     (case p of
        None \<Rightarrow> Inl NullDereference
      | Some a \<Rightarrow>
          if a < length (nodes s)
          then Inr (s\<lparr>nodes := (nodes s)[a := (nodes s ! a)\<lparr>prev := r\<rparr>]\<rparr>)
          else Inl WildPointer)"

text \<open>\<^verbatim>\<open>std::make_shared<RefType>(p)\<close>: a new cell, at a new address.\<close>

definition make_shared_Ref :: "'a MutableList \<Rightarrow> NodePtr \<Rightarrow> 'a MutableList \<times> RefPtr" where
  "make_shared_Ref s p = (s\<lparr>refs := refs s @ [p]\<rparr>, Some (length (refs s)))"

text \<open>\<^verbatim>\<open>std::make_shared<Node>(v)\<close>: a new node with both links empty.\<close>

definition make_shared_Node :: "'a MutableList \<Rightarrow> 'a \<Rightarrow> 'a MutableList \<times> NodePtr" where
  "make_shared_Node s v =
     (s\<lparr>nodes := nodes s @ [\<lparr>next = None, prev = None, val = v\<rparr>]\<rparr>, Some (length (nodes s)))"

section \<open>MutableList\<close>

text \<open>
  \<^verbatim>\<open>static void link(const NodePtr& a, const NodePtr& b) {
      a->next = std::make_shared<RefType>(b);
      b->prev = std::make_shared<RefType>(a); }\<close>
\<close>

definition link :: "'a MutableList \<Rightarrow> NodePtr \<Rightarrow> NodePtr \<Rightarrow> fault + 'a MutableList" where
  "link s a b =
     (let (s1, r1) = make_shared_Ref s b in
      and_then (set_next s1 a r1) (\<lambda>s2.
      let (s3, r2) = make_shared_Ref s2 a in
      set_prev s3 b r2))"

text \<open>
  \<^verbatim>\<open>makeSentinel()\<close> is \<^verbatim>\<open>std::make_shared<Node>()\<close>: the value of a sentinel is
  a value-initialised \<^verbatim>\<open>T\<close> (the empty string for \<^verbatim>\<open>std::string\<close>), here the
  parameter \<open>d\<close>.
\<close>

definition makeSentinel :: "'a MutableList \<Rightarrow> 'a \<Rightarrow> 'a MutableList \<times> NodePtr" where
  "makeSentinel s d = make_shared_Node s d"

text \<open>
  \<^verbatim>\<open>MutableList() : head_(makeSentinel()), tail_(makeSentinel()) { link(head_, tail_); }\<close>
  starting from an empty store.
\<close>

definition MutableList_default :: "'a \<Rightarrow> fault + 'a MutableList" where
  "MutableList_default d =
     (let (s1, h) = makeSentinel \<lparr>nodes = [], refs = [], m_head = None, m_tail = None, m_size = 0\<rparr> d;
          (s2, t) = makeSentinel s1 d
      in link (s2\<lparr>m_head := h, m_tail := t\<rparr>) h t)"

text \<open>\<^verbatim>\<open>begin()\<close> is \<^verbatim>\<open>iterator(head_->next->ptr)\<close>, \<^verbatim>\<open>end()\<close> is \<^verbatim>\<open>iterator(tail_)\<close>.
  An iterator is its \<^verbatim>\<open>current_\<close> member.\<close>

type_synonym iterator = NodePtr

definition begin_it :: "'a MutableList \<Rightarrow> fault + iterator" where
  "begin_it s = next_ptr s (m_head s)"

definition end_it :: "'a MutableList \<Rightarrow> iterator" where
  "end_it s = m_tail s"

text \<open>\<^verbatim>\<open>operator*\<close>: \<^verbatim>\<open>return current_->value;\<close>\<close>

definition operator_deref :: "'a MutableList \<Rightarrow> iterator \<Rightarrow> fault + 'a" where
  "operator_deref s it = and_then (node_at s it) (\<lambda>n. Inr (val n))"

text \<open>\<^verbatim>\<open>operator++\<close>: \<^verbatim>\<open>current_ = current_->next->ptr;\<close>\<close>

definition operator_incr :: "'a MutableList \<Rightarrow> iterator \<Rightarrow> fault + iterator" where
  "operator_incr s it = next_ptr s it"

text \<open>\<^verbatim>\<open>operator--\<close>: \<^verbatim>\<open>current_ = current_->prev->ptr;\<close>\<close>

definition operator_decr :: "'a MutableList \<Rightarrow> iterator \<Rightarrow> fault + iterator" where
  "operator_decr s it = prev_ptr s it"

text \<open>\<^verbatim>\<open>empty()\<close>, \<^verbatim>\<open>size()\<close>, \<^verbatim>\<open>front()\<close>, \<^verbatim>\<open>back()\<close>.\<close>

definition empty_list :: "'a MutableList \<Rightarrow> bool" where
  "empty_list s = (m_size s = 0)"

definition size_of :: "'a MutableList \<Rightarrow> 64 word" where
  "size_of s = m_size s"

definition front :: "'a MutableList \<Rightarrow> fault + 'a" where
  "front s =
     and_then (next_ptr s (m_head s)) (\<lambda>p.
     and_then (node_at s p) (\<lambda>n. Inr (val n)))"

definition back_of :: "'a MutableList \<Rightarrow> fault + 'a" where
  "back_of s =
     and_then (prev_ptr s (m_tail s)) (\<lambda>p.
     and_then (node_at s p) (\<lambda>n. Inr (val n)))"

text \<open>\<^verbatim>\<open>clear()\<close>: \<^verbatim>\<open>link(head_, tail_); size_ = 0;\<close>\<close>

definition clear :: "'a MutableList \<Rightarrow> fault + 'a MutableList" where
  "clear s =
     and_then (link s (m_head s) (m_tail s)) (\<lambda>s1. Inr (s1\<lparr>m_size := 0\<rparr>))"

text \<open>
  \<^verbatim>\<open>emplace_back\<close>:
  \<^verbatim>\<open>auto node = std::make_shared<Node>(args...); auto last = tail_->prev->ptr;
  link(last, node); link(node, tail_); ++size_; return node->value;\<close>
  The model returns the new node in place of the reference to its value.
\<close>

definition emplace_back :: "'a MutableList \<Rightarrow> 'a \<Rightarrow> fault + 'a MutableList \<times> NodePtr" where
  "emplace_back s v =
     (let (s1, node) = make_shared_Node s v in
      and_then (prev_ptr s1 (m_tail s1)) (\<lambda>lastp.
      and_then (link s1 lastp node) (\<lambda>s2.
      and_then (link s2 node (m_tail s2)) (\<lambda>s3.
      Inr (s3\<lparr>m_size := m_size s3 + 1\<rparr>, node)))))"

definition push_back :: "'a MutableList \<Rightarrow> 'a \<Rightarrow> fault + 'a MutableList" where
  "push_back s v = and_then (emplace_back s v) (\<lambda>(s1, node). Inr s1)"

text \<open>
  \<^verbatim>\<open>emplace_front\<close>:
  \<^verbatim>\<open>auto node = std::make_shared<Node>(args...); auto first = head_->next->ptr;
  link(head_, node); link(node, first); ++size_; return node->value;\<close>
\<close>

definition emplace_front :: "'a MutableList \<Rightarrow> 'a \<Rightarrow> fault + 'a MutableList \<times> NodePtr" where
  "emplace_front s v =
     (let (s1, node) = make_shared_Node s v in
      and_then (next_ptr s1 (m_head s1)) (\<lambda>firstp.
      and_then (link s1 (m_head s1) node) (\<lambda>s2.
      and_then (link s2 node firstp) (\<lambda>s3.
      Inr (s3\<lparr>m_size := m_size s3 + 1\<rparr>, node)))))"

definition push_front :: "'a MutableList \<Rightarrow> 'a \<Rightarrow> fault + 'a MutableList" where
  "push_front s v = and_then (emplace_front s v) (\<lambda>(s1, node). Inr s1)"

text \<open>
  \<^verbatim>\<open>erase(iterator pos)\<close>:
  \<^verbatim>\<open>auto node = pos.node(); auto pred = node->prev->ptr; auto succ = node->next->ptr;
  pred->next->ptr = succ; succ->prev->ptr = pred; --size_; return iterator(succ);\<close>
\<close>

definition erase :: "'a MutableList \<Rightarrow> iterator \<Rightarrow> fault + 'a MutableList \<times> iterator" where
  "erase s pos =
     and_then (prev_ptr s pos) (\<lambda>pred.
     and_then (next_ptr s pos) (\<lambda>succ.
     and_then (next_ptr_assign s pred succ) (\<lambda>s1.
     and_then (prev_ptr_assign s1 succ pred) (\<lambda>s2.
     Inr (s2\<lparr>m_size := m_size s2 - 1\<rparr>, succ)))))"

text \<open>\<^verbatim>\<open>erase_node(const NodePtr& node)\<close>: the same writes, nothing returned.\<close>

definition erase_node :: "'a MutableList \<Rightarrow> NodePtr \<Rightarrow> fault + 'a MutableList" where
  "erase_node s node =
     and_then (prev_ptr s node) (\<lambda>pred.
     and_then (next_ptr s node) (\<lambda>succ.
     and_then (next_ptr_assign s pred succ) (\<lambda>s1.
     and_then (prev_ptr_assign s1 succ pred) (\<lambda>s2.
     Inr (s2\<lparr>m_size := m_size s2 - 1\<rparr>)))))"

text \<open>
  \<^verbatim>\<open>erase\<close> and \<^verbatim>\<open>erase_node\<close> once more, statement by statement, now with the
  store in which the call ends, also when it ends in a fault: a statement that faults
  has written nothing, so the call ends in the store the statements before it left.
  \<open>or_stop s m f\<close> runs \<open>f\<close> on the result of \<open>m\<close>, or stops in store \<open>s\<close> with the
  fault of \<open>m\<close>. \<open>outcome\<close> forgets the store of a fault; it turns \<open>erase_run\<close> into
  \<open>erase\<close>.
\<close>

fun or_stop ::
  "'a MutableList \<Rightarrow> fault + 'b \<Rightarrow> ('b \<Rightarrow> (fault + 'c) \<times> 'a MutableList) \<Rightarrow>
     (fault + 'c) \<times> 'a MutableList" where
  "or_stop s (Inl e) f = (Inl e, s)"
| "or_stop s (Inr x) f = f x"

definition erase_run ::
  "'a MutableList \<Rightarrow> iterator \<Rightarrow> (fault + iterator) \<times> 'a MutableList" where
  "erase_run s pos =
     or_stop s (prev_ptr s pos) (\<lambda>pred.
     or_stop s (next_ptr s pos) (\<lambda>succ.
     or_stop s (next_ptr_assign s pred succ) (\<lambda>s1.
     or_stop s1 (prev_ptr_assign s1 succ pred) (\<lambda>s2.
     (Inr succ, s2\<lparr>m_size := m_size s2 - 1\<rparr>)))))"

definition erase_node_run ::
  "'a MutableList \<Rightarrow> NodePtr \<Rightarrow> (fault + unit) \<times> 'a MutableList" where
  "erase_node_run s node =
     or_stop s (prev_ptr s node) (\<lambda>pred.
     or_stop s (next_ptr s node) (\<lambda>succ.
     or_stop s (next_ptr_assign s pred succ) (\<lambda>s1.
     or_stop s1 (prev_ptr_assign s1 succ pred) (\<lambda>s2.
     (Inr (), s2\<lparr>m_size := m_size s2 - 1\<rparr>)))))"

fun outcome :: "(fault + 'r) \<times> 'a MutableList \<Rightarrow> fault + 'a MutableList \<times> 'r" where
  "outcome (Inl e, s) = Inl e"
| "outcome (Inr r, s) = Inr (s, r)"

text \<open>
  \<^verbatim>\<open>pop_back\<close>: \<^verbatim>\<open>if (!empty()) erase(iterator(tail_->prev->ptr));\<close>
  \<^verbatim>\<open>pop_front\<close>: \<^verbatim>\<open>if (!empty()) erase(begin());\<close>
\<close>

definition pop_back :: "'a MutableList \<Rightarrow> fault + 'a MutableList" where
  "pop_back s =
     (if \<not> empty_list s
      then and_then (prev_ptr s (m_tail s)) (\<lambda>p.
           and_then (erase s p) (\<lambda>(s1, it). Inr s1))
      else Inr s)"

definition pop_front :: "'a MutableList \<Rightarrow> fault + 'a MutableList" where
  "pop_front s =
     (if \<not> empty_list s
      then and_then (begin_it s) (\<lambda>p.
           and_then (erase s p) (\<lambda>(s1, it). Inr s1))
      else Inr s)"

text \<open>
  \<^verbatim>\<open>MutableList(std::initializer_list<T> init) : MutableList() {
      for (const auto& v : init) push_back(v); }\<close>
\<close>

fun push_back_all :: "'a MutableList \<Rightarrow> 'a list \<Rightarrow> fault + 'a MutableList" where
  "push_back_all s [] = Inr s"
| "push_back_all s (v # vs) =
     and_then (push_back s v) (\<lambda>s1. push_back_all s1 vs)"

definition MutableList_init :: "'a \<Rightarrow> 'a list \<Rightarrow> fault + 'a MutableList" where
  "MutableList_init d init =
     and_then (MutableList_default d) (\<lambda>s. push_back_all s init)"

section \<open>Traversals\<close>

text \<open>
  A loop over the list may run forever on a store whose links form a cycle, so each
  loop is a partial function: \<open>None\<close> is a loop that never ends. A loop returns its
  trace, the cursor positions it visited with the value read at each.

  The forward loop of \<^verbatim>\<open>main\<close>:
  \<^verbatim>\<open>for (auto it = list.begin(); it != list.end(); ++it) { ... *it ... }\<close>
\<close>

partial_function (option) for_each_from ::
  "'a MutableList \<Rightarrow> iterator \<Rightarrow> (iterator \<times> 'a) list \<Rightarrow> (fault + (iterator \<times> 'a) list) option"
where
  "for_each_from s it acc =
     (if it = end_it s then Some (Inr (rev acc))
      else (case operator_deref s it of
              Inl e \<Rightarrow> Some (Inl e)
            | Inr v \<Rightarrow>
                (case operator_incr s it of
                   Inl e \<Rightarrow> Some (Inl e)
                 | Inr it' \<Rightarrow> for_each_from s it' ((it, v) # acc))))"

declare for_each_from.simps [code]

definition for_each :: "'a MutableList \<Rightarrow> (fault + (iterator \<times> 'a) list) option" where
  "for_each s =
     (case begin_it s of Inl e \<Rightarrow> Some (Inl e) | Inr b \<Rightarrow> for_each_from s b [])"

text \<open>
  The reverse loop of \<^verbatim>\<open>main\<close>, over \<^verbatim>\<open>std::reverse_iterator<iterator>\<close>:
  \<^verbatim>\<open>for (auto it = list.rbegin(); it != list.rend(); ++it) { ... *it ... }\<close>
  A reverse iterator holds a base iterator; \<^verbatim>\<open>rbegin()\<close> has base \<^verbatim>\<open>end()\<close>,
  \<^verbatim>\<open>rend()\<close> has base \<^verbatim>\<open>begin()\<close>, \<^verbatim>\<open>*it\<close> reads \<^verbatim>\<open>*--tmp\<close> on a copy of the
  base and \<^verbatim>\<open>++it\<close> decrements the base.
\<close>

partial_function (option) reverse_for_each_from ::
  "'a MutableList \<Rightarrow> iterator \<Rightarrow> (iterator \<times> 'a) list \<Rightarrow> (fault + (iterator \<times> 'a) list) option"
where
  "reverse_for_each_from s base acc =
     (case begin_it s of
        Inl e \<Rightarrow> Some (Inl e)
      | Inr b \<Rightarrow>
          if base = b then Some (Inr (rev acc))
          else (case operator_decr s base of
                  Inl e \<Rightarrow> Some (Inl e)
                | Inr tmp \<Rightarrow>
                    (case operator_deref s tmp of
                       Inl e \<Rightarrow> Some (Inl e)
                     | Inr v \<Rightarrow>
                         (case operator_decr s base of
                            Inl e \<Rightarrow> Some (Inl e)
                          | Inr base' \<Rightarrow> reverse_for_each_from s base' ((tmp, v) # acc)))))"

declare reverse_for_each_from.simps [code]

definition reverse_for_each :: "'a MutableList \<Rightarrow> (fault + (iterator \<times> 'a) list) option" where
  "reverse_for_each s = reverse_for_each_from s (end_it s) []"

text \<open>
  Walking backward until the head sentinel, as \<^verbatim>\<open>link_iterator(terminal, true, ...)\<close>
  of \<^verbatim>\<open>mutable_chain.c\<close> does: the node before the current one is fetched through
  the backward cell, the walk stops when that node is the initial one, otherwise the
  node is visited and becomes the current one. On the C++ list the initial node is
  \<^verbatim>\<open>head_\<close>, the step is \<^verbatim>\<open>--it\<close>, and \<open>retreat\<close> starts from the tail sentinel,
  so its first position is \<^verbatim>\<open>tail_->prev->ptr\<close>.
\<close>

partial_function (option) retreat_from ::
  "'a MutableList \<Rightarrow> iterator \<Rightarrow> (iterator \<times> 'a) list \<Rightarrow> (fault + (iterator \<times> 'a) list) option"
where
  "retreat_from s it acc =
     (if it = m_head s then Some (Inr (rev acc))
      else (case operator_deref s it of
              Inl e \<Rightarrow> Some (Inl e)
            | Inr v \<Rightarrow>
                (case operator_decr s it of
                   Inl e \<Rightarrow> Some (Inl e)
                 | Inr it' \<Rightarrow> retreat_from s it' ((it, v) # acc))))"

declare retreat_from.simps [code]

definition retreat :: "'a MutableList \<Rightarrow> (fault + (iterator \<times> 'a) list) option" where
  "retreat s =
     (case prev_ptr s (m_tail s) of Inl e \<Rightarrow> Some (Inl e) | Inr l \<Rightarrow> retreat_from s l [])"

text \<open>
  Deleting while iterating, the loop of \<^verbatim>\<open>main\<close> and of the comment on
  \<^verbatim>\<open>erase\<close>:
  \<^verbatim>\<open>for (auto it = list.begin(); it != list.end(); ++it) {
      if (should_remove(*it)) { list.erase(it); } }\<close>
  The iterator that \<^verbatim>\<open>erase\<close> returns is dropped; \<^verbatim>\<open>++it\<close> then runs on the
  position of the erased node.
\<close>

partial_function (option) erase_loop_from ::
  "('a \<Rightarrow> bool) \<Rightarrow> 'a MutableList \<Rightarrow> iterator \<Rightarrow> (iterator \<times> 'a) list \<Rightarrow>
     (fault + 'a MutableList \<times> (iterator \<times> 'a) list) option"
where
  "erase_loop_from should_remove s it acc =
     (if it = end_it s then Some (Inr (s, rev acc))
      else (case operator_deref s it of
              Inl e \<Rightarrow> Some (Inl e)
            | Inr v \<Rightarrow>
                (case (if should_remove v
                       then and_then (erase s it) (\<lambda>(s1, r). Inr s1)
                       else Inr s) of
                   Inl e \<Rightarrow> Some (Inl e)
                 | Inr s1 \<Rightarrow>
                     (case operator_incr s1 it of
                        Inl e \<Rightarrow> Some (Inl e)
                      | Inr it' \<Rightarrow> erase_loop_from should_remove s1 it' ((it, v) # acc)))))"

declare erase_loop_from.simps [code]

definition erase_loop ::
  "('a \<Rightarrow> bool) \<Rightarrow> 'a MutableList \<Rightarrow> (fault + 'a MutableList \<times> (iterator \<times> 'a) list) option"
where
  "erase_loop should_remove s =
     (case begin_it s of
        Inl e \<Rightarrow> Some (Inl e)
      | Inr b \<Rightarrow> erase_loop_from should_remove s b [])"

text \<open>The values of a finished traversal.\<close>

definition values_of :: "(fault + (iterator \<times> 'a) list) option \<Rightarrow> 'a list option" where
  "values_of r = (case r of Some (Inr tr) \<Rightarrow> Some (map snd tr) | _ \<Rightarrow> None)"

section \<open>Chains\<close>

text \<open>
  \<open>linked s a b\<close>: the forward cell of node \<open>a\<close> holds \<open>b\<close> and the backward cell
  of \<open>b\<close> holds \<open>a\<close>, as \<^verbatim>\<open>link(a, b)\<close> leaves them.
\<close>

definition linked :: "'a MutableList \<Rightarrow> nat \<Rightarrow> nat \<Rightarrow> bool" where
  "linked s a b \<longleftrightarrow>
     next_ptr s (Some a) = Inr (Some b) \<and> prev_ptr s (Some b) = Inr (Some a)"

text \<open>Every node of the list is linked to the one after it.\<close>

fun chainp :: "'a MutableList \<Rightarrow> nat list \<Rightarrow> bool" where
  "chainp s (a # b # r) = (linked s a b \<and> chainp s (b # r))"
| "chainp s [a] = True"
| "chainp s [] = True"

text \<open>The cell a node holds in its \<^verbatim>\<open>next\<close> and in its \<^verbatim>\<open>prev\<close> member.\<close>

definition nextc :: "'a MutableList \<Rightarrow> nat \<Rightarrow> RefPtr" where
  "nextc s a = next (nodes s ! a)"

definition prevc :: "'a MutableList \<Rightarrow> nat \<Rightarrow> RefPtr" where
  "prevc s a = prev (nodes s ! a)"

text \<open>
  The chain of a list: \<open>h\<close> and \<open>t\<close> are the sentinels and \<open>ns\<close> the ordinary nodes
  in order. Consecutive nodes are linked, no node occurs twice, no cell is used for two
  links, the outer links of the sentinels are empty, and \<^verbatim>\<open>size_\<close> counts \<open>ns\<close>
  modulo \<open>2^64\<close>.
\<close>

definition chain_inv :: "'a MutableList \<Rightarrow> nat \<Rightarrow> nat list \<Rightarrow> nat \<Rightarrow> bool" where
  "chain_inv s h ns t \<longleftrightarrow>
     m_head s = Some h \<and> m_tail s = Some t \<and>
     chainp s (h # ns @ [t]) \<and> distinct (h # ns @ [t]) \<and>
     inj_on (nextc s) (set (h # ns)) \<and> inj_on (prevc s) (set (ns @ [t])) \<and>
     nextc s ` set (h # ns) \<inter> prevc s ` set (ns @ [t]) = {} \<and>
     prevc s h = None \<and> nextc s t = None \<and>
     m_size s = of_nat (length ns)"

text \<open>
  A position is attached when the forward loop from \<^verbatim>\<open>begin()\<close> to \<^verbatim>\<open>end()\<close>
  visits it: it is then the position of an ordinary node of the chain.
\<close>

definition attached :: "'a MutableList \<Rightarrow> iterator \<Rightarrow> bool" where
  "attached s pos =
     (case for_each s of Some (Inr tr) \<Rightarrow> pos \<in> set (map fst tr) | _ \<Rightarrow> False)"

text \<open>
  The lists a program can build: a new list, changed by the modifiers of the
  class. \<^verbatim>\<open>erase\<close> and \<^verbatim>\<open>erase_node\<close> are given attached positions only; what
  they do to a node that was erased before is left open by the source.
\<close>

inductive reachable :: "'a MutableList \<Rightarrow> bool" where
  reach_new: "MutableList_default d = Inr s \<Longrightarrow> reachable s"
| reach_push_back: "reachable s \<Longrightarrow> push_back s v = Inr s' \<Longrightarrow> reachable s'"
| reach_push_front: "reachable s \<Longrightarrow> push_front s v = Inr s' \<Longrightarrow> reachable s'"
| reach_erase: "reachable s \<Longrightarrow> attached s pos \<Longrightarrow> erase s pos = Inr (s', r) \<Longrightarrow> reachable s'"
| reach_erase_node: "reachable s \<Longrightarrow> attached s pos \<Longrightarrow> erase_node s pos = Inr s' \<Longrightarrow> reachable s'"
| reach_pop_back: "reachable s \<Longrightarrow> pop_back s = Inr s' \<Longrightarrow> reachable s'"
| reach_pop_front: "reachable s \<Longrightarrow> pop_front s = Inr s' \<Longrightarrow> reachable s'"
| reach_clear: "reachable s \<Longrightarrow> clear s = Inr s' \<Longrightarrow> reachable s'"

section \<open>The chain invariant\<close>

lemma nextc_update [simp]:
  "nextc (s\<lparr>refs := r\<rparr>) = nextc s" "nextc (s\<lparr>m_size := m\<rparr>) = nextc s"
  "nextc (s\<lparr>m_head := p\<rparr>) = nextc s" "nextc (s\<lparr>m_tail := p\<rparr>) = nextc s"
  by (simp_all add: nextc_def fun_eq_iff)

lemma prevc_update [simp]:
  "prevc (s\<lparr>refs := r\<rparr>) = prevc s" "prevc (s\<lparr>m_size := m\<rparr>) = prevc s"
  "prevc (s\<lparr>m_head := p\<rparr>) = prevc s" "prevc (s\<lparr>m_tail := p\<rparr>) = prevc s"
  by (simp_all add: prevc_def fun_eq_iff)

lemma next_ptr_Some:
  "next_ptr s (Some a) = Inr p \<longleftrightarrow>
     a < length (nodes s) \<and> (\<exists>c. nextc s a = Some c \<and> c < length (refs s) \<and> refs s ! c = p)"
  by (auto simp: next_ptr_def node_at_def ref_at_def nextc_def split: option.splits)

lemma prev_ptr_Some:
  "prev_ptr s (Some a) = Inr p \<longleftrightarrow>
     a < length (nodes s) \<and> (\<exists>c. prevc s a = Some c \<and> c < length (refs s) \<and> refs s ! c = p)"
  by (auto simp: prev_ptr_def node_at_def ref_at_def prevc_def split: option.splits)

lemma linked_iff:
  "linked s a b \<longleftrightarrow>
     a < length (nodes s) \<and> b < length (nodes s) \<and>
     (\<exists>c. nextc s a = Some c \<and> c < length (refs s) \<and> refs s ! c = Some b) \<and>
     (\<exists>c. prevc s b = Some c \<and> c < length (refs s) \<and> refs s ! c = Some a)"
  by (auto simp: linked_def next_ptr_Some prev_ptr_Some)

lemma chainp_append2:
  "P \<noteq> [] \<Longrightarrow> Q \<noteq> [] \<Longrightarrow>
   chainp s (P @ Q) \<longleftrightarrow> chainp s P \<and> linked s (last P) (hd Q) \<and> chainp s Q"
proof (induction s P rule: chainp.induct)
  case (1 s a b r)
  then show ?case by auto
next
  case (2 s a)
  then show ?case by (cases Q) auto
next
  case (3 s)
  then show ?case by simp
qed

lemma linked_frame:
  assumes "linked s a b"
    and "length (nodes s) \<le> length (nodes s')" and "length (refs s) \<le> length (refs s')"
    and "nextc s' a = nextc s a" and "prevc s' b = prevc s b"
    and "\<And>c. nextc s a = Some c \<Longrightarrow> refs s' ! c = refs s ! c"
    and "\<And>c. prevc s b = Some c \<Longrightarrow> refs s' ! c = refs s ! c"
  shows "linked s' a b"
  using assms unfolding linked_iff by fastforce

lemma chainp_frame:
  assumes "chainp s P"
    and "length (nodes s) \<le> length (nodes s')" and "length (refs s) \<le> length (refs s')"
    and "\<forall>a \<in> set (butlast P). nextc s' a = nextc s a \<and>
           (\<forall>c. nextc s a = Some c \<longrightarrow> refs s' ! c = refs s ! c)"
    and "\<forall>b \<in> set (tl P). prevc s' b = prevc s b \<and>
           (\<forall>c. prevc s b = Some c \<longrightarrow> refs s' ! c = refs s ! c)"
  shows "chainp s' P"
  using assms
proof (induction s P rule: chainp.induct)
  case (1 s a b r)
  have bl: "butlast (a # b # r) = a # butlast (b # r)" by simp
  have "linked s' a b"
  proof (rule linked_frame[of s a b])
    show "linked s a b" using 1(2) by simp
    show "nextc s' a = nextc s a" using 1(5) unfolding bl by simp
    show "prevc s' b = prevc s b" using 1(6) by simp
    show "\<And>c. nextc s a = Some c \<Longrightarrow> refs s' ! c = refs s ! c"
      using 1(5) unfolding bl by simp
    show "\<And>c. prevc s b = Some c \<Longrightarrow> refs s' ! c = refs s ! c"
      using 1(6) by simp
  qed (use 1 in simp_all)
  moreover have "chainp s' (b # r)"
  proof (rule 1(1))
    show "chainp s (b # r)" using 1(2) by simp
    show "\<forall>a\<in>set (butlast (b # r)). nextc s' a = nextc s a \<and>
           (\<forall>c. nextc s a = Some c \<longrightarrow> refs s' ! c = refs s ! c)"
      using 1(5) unfolding bl by simp
    show "\<forall>b\<in>set (tl (b # r)). prevc s' b = prevc s b \<and>
           (\<forall>c. prevc s b = Some c \<longrightarrow> refs s' ! c = refs s ! c)"
      using 1(6) by simp
  qed (use 1 in simp_all)
  ultimately show ?case by simp
qed simp_all

lemma chainp_bounds:
  "chainp s (a # P) \<Longrightarrow> P \<noteq> [] \<Longrightarrow> x \<in> set (a # P) \<Longrightarrow> x < length (nodes s)"
proof (induction P arbitrary: a)
  case Nil
  then show ?case by simp
next
  case (Cons b P)
  show ?case
  proof (cases "P = []")
    case True
    with Cons.prems show ?thesis by (auto simp: linked_iff)
  next
    case False
    with Cons show ?thesis by (auto simp: linked_iff)
  qed
qed

lemma chainp_nextc:
  "chainp s P \<Longrightarrow> a \<in> set (butlast P) \<Longrightarrow> \<exists>c. nextc s a = Some c \<and> c < length (refs s)"
  by (induction s P rule: chainp.induct) (auto simp: linked_iff)

lemma chainp_prevc:
  "chainp s P \<Longrightarrow> a \<in> set (tl P) \<Longrightarrow> \<exists>c. prevc s a = Some c \<and> c < length (refs s)"
  by (induction s P rule: chainp.induct) (auto simp: linked_iff)

lemma MutableList_default_inv:
  "\<exists>s. MutableList_default d = Inr s \<and> chain_inv s 0 [] 1"
  by (simp add: MutableList_default_def makeSentinel_def make_shared_Node_def link_def
      make_shared_Ref_def set_next_def set_prev_def chain_inv_def linked_iff nextc_def prevc_def)


lemma erase_linked:
  assumes "linked s p x" and "linked s x q"
    and "nextc s p = Some cp" and "prevc s q = Some cs"
  shows "erase s (Some x) =
           Inr (s\<lparr>refs := (refs s)[cp := Some q, cs := Some p], m_size := m_size s - 1\<rparr>, Some q)"
proof -
  have r: "prev_ptr s (Some x) = Inr (Some p)" "next_ptr s (Some x) = Inr (Some q)"
    using assms by (simp_all add: linked_def)
  have b: "p < length (nodes s)" "q < length (nodes s)" "cp < length (refs s)"
    "cs < length (refs s)"
    using assms by (auto simp: linked_iff)
  show ?thesis
    using assms(3,4) b
    by (simp add: erase_def r next_ptr_assign_def prev_ptr_assign_def node_at_def
        ref_write_def nextc_def prevc_def)
qed

lemma distinct_butlast_last: "distinct P \<Longrightarrow> a \<in> set (butlast P) \<Longrightarrow> a \<noteq> last P"
  by (cases P rule: rev_cases) auto

lemma distinct_tl_hd: "distinct P \<Longrightarrow> a \<in> set (tl P) \<Longrightarrow> a \<noteq> hd P"
  by (cases P) auto

lemma erase_inv:
  assumes inv: "chain_inv s h (xs @ x # ys) t"
  defines "p \<equiv> last (h # xs)" and "q \<equiv> hd (ys @ [t])"
  shows "\<exists>cp cs. nextc s p = Some cp \<and> prevc s q = Some cs \<and> cp \<noteq> cs \<and>
           cp < length (refs s) \<and> cs < length (refs s) \<and> linked s p x \<and> linked s x q \<and>
           nextc s x \<noteq> Some cp \<and> nextc s x \<noteq> Some cs \<and>
           prevc s x \<noteq> Some cp \<and> prevc s x \<noteq> Some cs \<and>
           chain_inv (s\<lparr>refs := (refs s)[cp := Some q, cs := Some p], m_size := m_size s - 1\<rparr>)
             h (xs @ ys) t"
proof -
  let ?N = "set (h # (xs @ x # ys))" and ?P = "set ((xs @ x # ys) @ [t])"
  from inv have hd: "m_head s = Some h" and tl: "m_tail s = Some t"
    and ch0: "chainp s (h # (xs @ x # ys) @ [t])"
    and dist0: "distinct (h # (xs @ x # ys) @ [t])"
    and injn: "inj_on (nextc s) ?N" and injp: "inj_on (prevc s) ?P"
    and disj: "nextc s ` ?N \<inter> prevc s ` ?P = {}"
    and ends: "prevc s h = None" "nextc s t = None"
    and sz: "m_size s = of_nat (length (xs @ x # ys))"
    unfolding chain_inv_def by blast+
  have ch: "chainp s ((h # xs) @ ([x] @ (ys @ [t])))" using ch0 by simp
  have dist: "distinct ((h # xs) @ x # (ys @ [t]))" using dist0 by simp
  have ne: "h # xs \<noteq> []" "[x] @ (ys @ [t]) \<noteq> []" "[x] \<noteq> []" "ys @ [t] \<noteq> []"
    by simp_all
  have "chainp s (h # xs) \<and> linked s (last (h # xs)) (hd ([x] @ (ys @ [t]))) \<and>
        chainp s ([x] @ (ys @ [t]))"
    using ch chainp_append2[OF ne(1,2), of s] by blast
  then have c1: "chainp s (h # xs)" and l1: "linked s p x"
    and c2': "chainp s ([x] @ (ys @ [t]))"
    unfolding p_def by simp_all
  have "chainp s [x] \<and> linked s (last [x]) (hd (ys @ [t])) \<and> chainp s (ys @ [t])"
    using c2' chainp_append2[OF ne(3,4), of s] by blast
  then have l2: "linked s x q" and c2: "chainp s (ys @ [t])"
    unfolding q_def by simp_all
  obtain cp where cp: "nextc s p = Some cp" "cp < length (refs s)"
    using l1 by (auto simp: linked_iff)
  obtain cs where cs: "prevc s q = Some cs" "cs < length (refs s)"
    using l2 by (auto simp: linked_iff)
  have pin: "p \<in> set (h # xs)" unfolding p_def by (rule last_in_set) simp
  have qin: "q \<in> set (ys @ [t])" unfolding q_def by (rule hd_in_set) simp
  have pN: "p \<in> ?N" using pin by auto
  have qP: "q \<in> ?P" using qin by auto
  have cross: "\<And>a b. a \<in> ?N \<Longrightarrow> b \<in> ?P \<Longrightarrow> nextc s a \<noteq> prevc s b"
    using disj by blast
  have neq: "cp \<noteq> cs"
    using cross[OF pN qP] cp cs by simp
  have nA: "c \<noteq> cp \<and> c \<noteq> cs" if "a \<in> ?N" "a \<noteq> p" "nextc s a = Some c" for a c
  proof
    show "c \<noteq> cp" using inj_onD[OF injn _ that(1) pN] that cp by auto
    show "c \<noteq> cs" using cross[OF that(1) qP] that cs by auto
  qed
  have nB: "c \<noteq> cp \<and> c \<noteq> cs" if "b \<in> ?P" "b \<noteq> q" "prevc s b = Some c" for b c
  proof
    show "c \<noteq> cs" using inj_onD[OF injp _ that(1) qP] that cs by auto
    show "c \<noteq> cp" using cross[OF pN that(1)] that cp by auto
  qed
  let ?s = "s\<lparr>refs := (refs s)[cp := Some q, cs := Some p], m_size := m_size s - 1\<rparr>"
  have same: "nextc ?s = nextc s" "prevc ?s = prevc s"
    by simp_all
  have f1: "chainp ?s (h # xs)"
  proof (rule chainp_frame[OF c1])
    show "\<forall>a\<in>set (butlast (h # xs)). nextc ?s a = nextc s a \<and>
            (\<forall>c. nextc s a = Some c \<longrightarrow> refs ?s ! c = refs s ! c)"
    proof (intro ballI conjI allI impI)
      fix a c assume a: "a \<in> set (butlast (h # xs))" and c: "nextc s a = Some c"
      have "a \<noteq> p" unfolding p_def
        using distinct_butlast_last[OF _ a] dist by simp
      moreover have "a \<in> ?N" using in_set_butlastD[OF a] by auto
      ultimately show "refs ?s ! c = refs s ! c" using nA[OF _ _ c] by simp
    qed (simp add: same)
    show "\<forall>b\<in>set (tl (h # xs)). prevc ?s b = prevc s b \<and>
            (\<forall>c. prevc s b = Some c \<longrightarrow> refs ?s ! c = refs s ! c)"
    proof (intro ballI conjI allI impI)
      fix b c assume b: "b \<in> set (tl (h # xs))" and c: "prevc s b = Some c"
      have "b \<noteq> q" using b qin dist by auto
      moreover have "b \<in> ?P" using b by auto
      ultimately show "refs ?s ! c = refs s ! c" using nB[OF _ _ c] by simp
    qed (simp add: same)
  qed simp_all
  have f2: "chainp ?s (ys @ [t])"
  proof (rule chainp_frame[OF c2])
    show "\<forall>a\<in>set (butlast (ys @ [t])). nextc ?s a = nextc s a \<and>
            (\<forall>c. nextc s a = Some c \<longrightarrow> refs ?s ! c = refs s ! c)"
    proof (intro ballI conjI allI impI)
      fix a c assume a: "a \<in> set (butlast (ys @ [t]))" and c: "nextc s a = Some c"
      have "a \<noteq> p" using a pin dist by auto
      moreover have "a \<in> ?N" using a by auto
      ultimately show "refs ?s ! c = refs s ! c" using nA[OF _ _ c] by simp
    qed (simp add: same)
    show "\<forall>b\<in>set (tl (ys @ [t])). prevc ?s b = prevc s b \<and>
            (\<forall>c. prevc s b = Some c \<longrightarrow> refs ?s ! c = refs s ! c)"
    proof (intro ballI conjI allI impI)
      fix b c assume b: "b \<in> set (tl (ys @ [t]))" and c: "prevc s b = Some c"
      have "b \<noteq> q" unfolding q_def
        using distinct_tl_hd[OF _ b] dist by simp
      moreover have "b \<in> set (ys @ [t])" using b by (rule list.set_sel(2)[rotated]) simp
      then have "b \<in> ?P" by auto
      ultimately show "refs ?s ! c = refs s ! c" using nB[OF _ _ c] by simp
    qed (simp add: same)
  qed simp_all
  have f3: "linked ?s p q"
    using l1 l2 cp cs neq by (simp add: linked_iff same)
  have "chainp ?s ((h # xs) @ (ys @ [t]))"
    using f1 f2 f3 chainp_append2[OF ne(1,4), of ?s] unfolding p_def q_def by blast
  then have chain: "chainp ?s (h # (xs @ ys) @ [t])" by simp
  have d': "distinct (h # (xs @ ys) @ [t])" using dist by auto
  have i1: "inj_on (nextc ?s) (set (h # (xs @ ys)))"
    unfolding same by (rule inj_on_subset[OF injn]) auto
  have i2: "inj_on (prevc ?s) (set ((xs @ ys) @ [t]))"
    unfolding same by (rule inj_on_subset[OF injp]) auto
  have i3: "nextc ?s ` set (h # (xs @ ys)) \<inter> prevc ?s ` set ((xs @ ys) @ [t]) = {}"
    unfolding same using disj by auto
  have "chain_inv ?s h (xs @ ys) t"
    unfolding chain_inv_def
    using chain d' i1 i2 i3 hd tl ends sz by simp
  moreover have "x \<noteq> p" using pin dist by auto
  then have "nextc s x \<noteq> Some cp \<and> nextc s x \<noteq> Some cs"
    using nA[of x] by auto
  moreover have "x \<noteq> q" using qin dist by auto
  then have "prevc s x \<noteq> Some cp \<and> prevc s x \<noteq> Some cs"
    using nB[of x] by auto
  ultimately show ?thesis using cp cs neq l1 l2 by blast
qed


lemma emplace_back_result:
  assumes "m_tail s = Some t" and "prev_ptr s (Some t) = Inr (Some l)"
    and "l < length (nodes s)" and "t < length (nodes s)"
  defines "n \<equiv> length (nodes s)" and "c0 \<equiv> length (refs s)"
  shows "\<exists>s'. emplace_back s v = Inr (s', Some n) \<and>
           length (nodes s') = Suc n \<and>
           refs s' = refs s @ [Some n, Some l, Some t, Some n] \<and>
           (\<forall>a<n. nextc s' a = (if a = l then Some c0 else nextc s a)) \<and>
           nextc s' n = Some (c0 + 2) \<and>
           (\<forall>b<n. prevc s' b = (if b = t then Some (c0 + 3) else prevc s b)) \<and>
           prevc s' n = Some (c0 + 1) \<and>
           (\<forall>a<n. val (nodes s' ! a) = val (nodes s ! a)) \<and> val (nodes s' ! n) = v \<and>
           m_head s' = m_head s \<and> m_tail s' = m_tail s \<and> m_size s' = m_size s + 1"
proof -
  have "prev_ptr (s\<lparr>nodes := nodes s @ [\<lparr>next = None, prev = None, val = v\<rparr>]\<rparr>) (Some t)
          = Inr (Some l)"
    using assms(2,4)
    by (auto simp: prev_ptr_def node_at_def ref_at_def nth_append split: option.splits if_splits)
  then show ?thesis
    using assms(1,3,4) unfolding n_def c0_def
    by (auto simp: emplace_back_def make_shared_Node_def link_def make_shared_Ref_def
        set_next_def set_prev_def nextc_def prevc_def nth_append nth_list_update)
qed

lemma emplace_front_result:
  assumes "m_head s = Some h" and "next_ptr s (Some h) = Inr (Some f)"
    and "h < length (nodes s)" and "f < length (nodes s)"
  defines "n \<equiv> length (nodes s)" and "c0 \<equiv> length (refs s)"
  shows "\<exists>s'. emplace_front s v = Inr (s', Some n) \<and>
           length (nodes s') = Suc n \<and>
           refs s' = refs s @ [Some n, Some h, Some f, Some n] \<and>
           (\<forall>a<n. nextc s' a = (if a = h then Some c0 else nextc s a)) \<and>
           nextc s' n = Some (c0 + 2) \<and>
           (\<forall>b<n. prevc s' b = (if b = f then Some (c0 + 3) else prevc s b)) \<and>
           prevc s' n = Some (c0 + 1) \<and>
           (\<forall>a<n. val (nodes s' ! a) = val (nodes s ! a)) \<and> val (nodes s' ! n) = v \<and>
           m_head s' = m_head s \<and> m_tail s' = m_tail s \<and> m_size s' = m_size s + 1"
proof -
  have "next_ptr (s\<lparr>nodes := nodes s @ [\<lparr>next = None, prev = None, val = v\<rparr>]\<rparr>) (Some h)
          = Inr (Some f)"
    using assms(2,3)
    by (auto simp: next_ptr_def node_at_def ref_at_def nth_append split: option.splits if_splits)
  then show ?thesis
    using assms(1,3,4) unfolding n_def c0_def
    by (auto simp: emplace_front_def make_shared_Node_def link_def make_shared_Ref_def
        set_next_def set_prev_def nextc_def prevc_def nth_append nth_list_update)
qed


lemma insert_inv:
  assumes inv: "chain_inv s h (A @ B) t"
  defines "l \<equiv> last (h # A)" and "f \<equiv> hd (B @ [t])"
    and "n \<equiv> length (nodes s)" and "c0 \<equiv> length (refs s)"
  assumes len: "length (nodes s') = Suc n"
    and rf: "refs s' = refs s @ [Some n, Some l, Some f, Some n]"
    and nx: "\<forall>a<n. nextc s' a = (if a = l then Some c0 else nextc s a)"
    and nxn: "nextc s' n = Some (c0 + 2)"
    and pv: "\<forall>b<n. prevc s' b = (if b = f then Some (c0 + 3) else prevc s b)"
    and pvn: "prevc s' n = Some (c0 + 1)"
    and hts: "m_head s' = m_head s" "m_tail s' = m_tail s" "m_size s' = m_size s + 1"
  shows "chain_inv s' h (A @ n # B) t"
proof -
  let ?N = "set (h # (A @ B))" and ?P = "set ((A @ B) @ [t])"
  from inv have hd: "m_head s = Some h" and tl: "m_tail s = Some t"
    and ch0: "chainp s (h # (A @ B) @ [t])"
    and dist0: "distinct (h # (A @ B) @ [t])"
    and injn: "inj_on (nextc s) ?N" and injp: "inj_on (prevc s) ?P"
    and disj: "nextc s ` ?N \<inter> prevc s ` ?P = {}"
    and ends: "prevc s h = None" "nextc s t = None"
    and sz: "m_size s = of_nat (length (A @ B))"
    unfolding chain_inv_def by blast+
  have ne: "h # A \<noteq> []" "B @ [t] \<noteq> []" "[n] \<noteq> []" "[n] @ (B @ [t]) \<noteq> []" by simp_all
  have ch: "chainp s ((h # A) @ (B @ [t]))" using ch0 by simp
  have dist: "distinct ((h # A) @ (B @ [t]))" using dist0 by simp
  have c1: "chainp s (h # A)" and l0: "linked s l f" and c2: "chainp s (B @ [t])"
    using ch chainp_append2[OF ne(1,2), of s] unfolding l_def f_def by blast+
  have bnd: "x < n" if "x \<in> set (h # (A @ B) @ [t])" for x
    unfolding n_def using chainp_bounds[OF ch0 _ that] by simp
  have lin: "l \<in> set (h # A)" unfolding l_def by (rule last_in_set) simp
  have fin: "f \<in> set (B @ [t])" unfolding f_def by (rule hd_in_set) simp
  have nb: "\<exists>c<c0. nextc s a = Some c" if "a \<in> ?N" for a
    unfolding c0_def using chainp_nextc[OF ch0, of a] that by (auto simp: butlast_append)
  have pb: "\<exists>c<c0. prevc s b = Some c" if "b \<in> ?P" for b
    unfolding c0_def using chainp_prevc[OF ch0, of b] that by auto
  have old: "refs s' ! c = refs s ! c" if "c < c0" for c
    using that unfolding rf c0_def by (simp add: nth_append)
  have lens: "length (nodes s) \<le> length (nodes s')" "length (refs s) \<le> length (refs s')"
    using len rf unfolding n_def by simp_all
  have f1: "chainp s' (h # A)"
  proof (rule chainp_frame[OF c1 lens])
    show "\<forall>a\<in>set (butlast (h # A)). nextc s' a = nextc s a \<and>
            (\<forall>c. nextc s a = Some c \<longrightarrow> refs s' ! c = refs s ! c)"
    proof (intro ballI)
      fix a assume a: "a \<in> set (butlast (h # A))"
      have "a \<noteq> l" unfolding l_def using distinct_butlast_last[OF _ a] dist by simp
      moreover have aN: "a \<in> ?N" using in_set_butlastD[OF a] by auto
      moreover have "a < n" using bnd aN by auto
      ultimately show "nextc s' a = nextc s a \<and>
            (\<forall>c. nextc s a = Some c \<longrightarrow> refs s' ! c = refs s ! c)"
        using nx nb[OF aN] old by auto
    qed
    show "\<forall>b\<in>set (tl (h # A)). prevc s' b = prevc s b \<and>
            (\<forall>c. prevc s b = Some c \<longrightarrow> refs s' ! c = refs s ! c)"
    proof (intro ballI)
      fix b assume b: "b \<in> set (tl (h # A))"
      have "b \<noteq> f" using b fin dist by auto
      moreover have bP: "b \<in> ?P" using b by auto
      moreover have "b < n" using bnd bP by auto
      ultimately show "prevc s' b = prevc s b \<and>
            (\<forall>c. prevc s b = Some c \<longrightarrow> refs s' ! c = refs s ! c)"
        using pv pb[OF bP] old by auto
    qed
  qed
  have f2: "chainp s' (B @ [t])"
  proof (rule chainp_frame[OF c2 lens])
    show "\<forall>a\<in>set (butlast (B @ [t])). nextc s' a = nextc s a \<and>
            (\<forall>c. nextc s a = Some c \<longrightarrow> refs s' ! c = refs s ! c)"
    proof (intro ballI)
      fix a assume a: "a \<in> set (butlast (B @ [t]))"
      have "a \<noteq> l" using a lin dist by auto
      moreover have aN: "a \<in> ?N" using a by auto
      moreover have "a < n" using bnd aN by auto
      ultimately show "nextc s' a = nextc s a \<and>
            (\<forall>c. nextc s a = Some c \<longrightarrow> refs s' ! c = refs s ! c)"
        using nx nb[OF aN] old by auto
    qed
    show "\<forall>b\<in>set (tl (B @ [t])). prevc s' b = prevc s b \<and>
            (\<forall>c. prevc s b = Some c \<longrightarrow> refs s' ! c = refs s ! c)"
    proof (intro ballI)
      fix b assume b: "b \<in> set (tl (B @ [t]))"
      have "b \<noteq> f" unfolding f_def using distinct_tl_hd[OF _ b] dist by simp
      moreover have "b \<in> set (B @ [t])" using b by (rule list.set_sel(2)[rotated]) simp
      then have bP: "b \<in> ?P" by auto
      moreover have "b < n" using bnd bP by auto
      ultimately show "prevc s' b = prevc s b \<and>
            (\<forall>c. prevc s b = Some c \<longrightarrow> refs s' ! c = refs s ! c)"
        using pv pb[OF bP] old by auto
    qed
  qed
  have ln: "l < n" "f < n" using bnd lin fin by auto
  have f3: "linked s' l n"
    using ln nx nxn pvn len unfolding linked_iff rf c0_def by (simp add: nth_append)
  have f4: "linked s' n f"
    using ln pv nxn pvn len unfolding linked_iff rf c0_def by (simp add: nth_append)
  have "chainp s' ([n] @ (B @ [t]))"
    using f2 f4 chainp_append2[OF ne(3,2), of s'] unfolding f_def by simp
  then have "chainp s' ((h # A) @ ([n] @ (B @ [t])))"
    using f1 f3 chainp_append2[OF ne(1,4), of s'] unfolding l_def by simp
  then have chain: "chainp s' (h # (A @ n # B) @ [t])" by simp
  have nnew: "n \<notin> set (h # (A @ B) @ [t])" using bnd by blast
  have d': "distinct (h # (A @ n # B) @ [t])" using dist nnew by auto
  have nx': "nextc s' a = (if a = l then Some c0 else nextc s a)" if "a \<in> ?N" for a
    using nx bnd[of a] that by auto
  have pv': "prevc s' b = (if b = f then Some (c0 + 3) else prevc s b)" if "b \<in> ?P" for b
    using pv bnd[of b] that by auto
  have cross: "\<And>a b. a \<in> ?N \<Longrightarrow> b \<in> ?P \<Longrightarrow> nextc s a \<noteq> prevc s b"
    using disj by blast
  have i1: "inj_on (nextc s') (set (h # (A @ n # B)))"
  proof (rule inj_onI)
    fix x y assume x: "x \<in> set (h # (A @ n # B))" and y: "y \<in> set (h # (A @ n # B))"
      and eq: "nextc s' x = nextc s' y"
    have xs: "x = n \<or> x \<in> ?N" and ys: "y = n \<or> y \<in> ?N" using x y by auto
    show "x = y"
      using xs ys eq nxn nx'[of x] nx'[of y] nb[of x] nb[of y] inj_onD[OF injn, of x y]
      by (auto split: if_splits)
  qed
  have i2: "inj_on (prevc s') (set ((A @ n # B) @ [t]))"
  proof (rule inj_onI)
    fix x y assume x: "x \<in> set ((A @ n # B) @ [t])" and y: "y \<in> set ((A @ n # B) @ [t])"
      and eq: "prevc s' x = prevc s' y"
    have xs: "x = n \<or> x \<in> ?P" and ys: "y = n \<or> y \<in> ?P" using x y by auto
    show "x = y"
      using xs ys eq pvn pv'[of x] pv'[of y] pb[of x] pb[of y] inj_onD[OF injp, of x y]
      by (auto split: if_splits)
  qed
  have i3: "nextc s' ` set (h # (A @ n # B)) \<inter> prevc s' ` set ((A @ n # B) @ [t]) = {}"
  proof -
    have "nextc s' x \<noteq> prevc s' y"
      if x: "x \<in> set (h # (A @ n # B))" and y: "y \<in> set ((A @ n # B) @ [t])" for x y
    proof -
      have xs: "x = n \<or> x \<in> ?N" and ys: "y = n \<or> y \<in> ?P" using x y by auto
      show ?thesis
        using xs ys nxn pvn nx'[of x] pv'[of y] nb[of x] pb[of y] cross[of x y]
        by (auto split: if_splits)
    qed
    then show ?thesis by blast
  qed
  have "h \<noteq> f" using fin dist by auto
  then have e1: "prevc s' h = None" using pv bnd[of h] ends by simp
  have "t \<noteq> l" using lin dist by auto
  then have e2: "nextc s' t = None" using nx bnd[of t] ends by simp
  show ?thesis
    unfolding chain_inv_def
    using chain d' i1 i2 i3 hd tl e1 e2 sz hts by simp
qed


lemma chain_inv_last_linked:
  assumes "chain_inv s h ns t"
  shows "linked s (last (h # ns)) t"
proof -
  have "chainp s ((h # ns) @ [t])" using assms by (simp add: chain_inv_def)
  then show ?thesis using chainp_append2[of "h # ns" "[t]" s] by simp
qed

lemma chain_inv_first_linked:
  assumes "chain_inv s h ns t"
  shows "linked s h (hd (ns @ [t]))"
proof -
  have "chainp s ([h] @ (ns @ [t]))" using assms by (simp add: chain_inv_def)
  then show ?thesis using chainp_append2[of "[h]" "ns @ [t]" s] by simp
qed

lemma emplace_back_inv:
  assumes inv: "chain_inv s h ns t"
  shows "\<exists>s'. emplace_back s v = Inr (s', Some (length (nodes s))) \<and>
           chain_inv s' h (ns @ [length (nodes s)]) t"
proof -
  let ?l = "last (h # ns)"
  have l: "linked s ?l t" by (rule chain_inv_last_linked[OF inv])
  have t: "m_tail s = Some t" using inv by (simp add: chain_inv_def)
  have b: "?l < length (nodes s)" "t < length (nodes s)" "prev_ptr s (Some t) = Inr (Some ?l)"
    using l linked_iff[of s ?l t] linked_def[of s ?l t] by blast+
  obtain s' where s': "emplace_back s v = Inr (s', Some (length (nodes s)))"
    and r: "length (nodes s') = Suc (length (nodes s))"
      "refs s' = refs s @ [Some (length (nodes s)), Some ?l, Some t, Some (length (nodes s))]"
      "\<forall>a<length (nodes s). nextc s' a = (if a = ?l then Some (length (refs s)) else nextc s a)"
      "nextc s' (length (nodes s)) = Some (length (refs s) + 2)"
      "\<forall>b<length (nodes s). prevc s' b = (if b = t then Some (length (refs s) + 3) else prevc s b)"
      "prevc s' (length (nodes s)) = Some (length (refs s) + 1)"
      "m_head s' = m_head s" "m_tail s' = m_tail s" "m_size s' = m_size s + 1"
    using emplace_back_result[OF t b(3) b(1) b(2), of v] by blast
  have "chain_inv s' h (ns @ length (nodes s) # []) t"
    by (rule insert_inv[where s = s and B = "[]"]) (use inv r in simp_all)
  then show ?thesis using s' by blast
qed

lemma emplace_front_inv:
  assumes inv: "chain_inv s h ns t"
  shows "\<exists>s'. emplace_front s v = Inr (s', Some (length (nodes s))) \<and>
           chain_inv s' h (length (nodes s) # ns) t"
proof -
  let ?f = "hd (ns @ [t])"
  have l: "linked s h ?f" by (rule chain_inv_first_linked[OF inv])
  have h: "m_head s = Some h" using inv by (simp add: chain_inv_def)
  have b: "h < length (nodes s)" "?f < length (nodes s)" "next_ptr s (Some h) = Inr (Some ?f)"
    using l linked_iff[of s h ?f] linked_def[of s h ?f] by blast+
  obtain s' where s': "emplace_front s v = Inr (s', Some (length (nodes s)))"
    and r: "length (nodes s') = Suc (length (nodes s))"
      "refs s' = refs s @ [Some (length (nodes s)), Some h, Some ?f, Some (length (nodes s))]"
      "\<forall>a<length (nodes s). nextc s' a = (if a = h then Some (length (refs s)) else nextc s a)"
      "nextc s' (length (nodes s)) = Some (length (refs s) + 2)"
      "\<forall>b<length (nodes s). prevc s' b = (if b = ?f then Some (length (refs s) + 3) else prevc s b)"
      "prevc s' (length (nodes s)) = Some (length (refs s) + 1)"
      "m_head s' = m_head s" "m_tail s' = m_tail s" "m_size s' = m_size s + 1"
    using emplace_front_result[OF h b(3) b(1) b(2), of v] by blast
  have "chain_inv s' h ([] @ length (nodes s) # ns) t"
    by (rule insert_inv[where s = s and A = "[]"]) (use inv r in simp_all)
  then show ?thesis using s' by simp
qed

section \<open>Traversals of a chain\<close>

text \<open>What a loop records at node \<open>a\<close>: its position and its value.\<close>

lemma linked_reads:
  assumes "linked s a b"
  shows "operator_incr s (Some a) = Inr (Some b)" "operator_decr s (Some b) = Inr (Some a)"
    "operator_deref s (Some a) = Inr (val (nodes s ! a))"
    "operator_deref s (Some b) = Inr (val (nodes s ! b))"
  using assms
  by (simp_all add: linked_def operator_incr_def operator_decr_def operator_deref_def)
     (auto simp: next_ptr_Some prev_ptr_Some node_at_def)

lemma for_each_from_chain:
  assumes "m_tail s = Some t" and "chainp s (xs @ [t])" and "t \<notin> set xs"
  shows "for_each_from s (Some (hd (xs @ [t]))) acc =
           Some (Inr (rev acc @ map (\<lambda>a. (Some a, val (nodes s ! a))) xs))"
  using assms(2,3)
proof (induction xs arbitrary: acc)
  case Nil
  then show ?case using assms(1) by (subst for_each_from.simps) (simp add: end_it_def)
next
  case (Cons a xs)
  have ne: "[a] \<noteq> []" "xs @ [t] \<noteq> []" by simp_all
  have "chainp s ([a] @ (xs @ [t]))" using Cons.prems by simp
  then have l: "linked s a (hd (xs @ [t]))" and c: "chainp s (xs @ [t])"
    using chainp_append2[OF ne, of s] by simp_all
  have nt: "Some a \<noteq> end_it s" using Cons.prems assms(1) by (auto simp: end_it_def)
  have "for_each_from s (Some a) acc =
          for_each_from s (Some (hd (xs @ [t]))) ((Some a, val (nodes s ! a)) # acc)"
    by (subst for_each_from.simps) (simp add: nt linked_reads[OF l])
  also have "\<dots> = Some (Inr (rev ((Some a, val (nodes s ! a)) # acc) @
                 map (\<lambda>a. (Some a, val (nodes s ! a))) xs))"
    by (rule Cons.IH[OF c]) (use Cons.prems in simp)
  finally show ?case by simp
qed

lemma retreat_from_chain:
  assumes "m_head s = Some h" and "chainp s (h # xs)" and "h \<notin> set xs"
  shows "retreat_from s (Some (last (h # xs))) acc =
           Some (Inr (rev acc @ map (\<lambda>a. (Some a, val (nodes s ! a))) (rev xs)))"
  using assms(2,3)
proof (induction xs arbitrary: acc rule: rev_induct)
  case Nil
  then show ?case using assms(1) by (subst retreat_from.simps) simp
next
  case (snoc a xs)
  have ne: "h # xs \<noteq> []" "[a] \<noteq> []" by simp_all
  have "chainp s ((h # xs) @ [a])" using snoc.prems by simp
  then have l: "linked s (last (h # xs)) a" and c: "chainp s (h # xs)"
    using chainp_append2[OF ne, of s] by simp_all
  have nt: "Some a \<noteq> m_head s" using snoc.prems assms(1) by auto
  have "retreat_from s (Some a) acc =
          retreat_from s (Some (last (h # xs))) ((Some a, val (nodes s ! a)) # acc)"
    by (subst retreat_from.simps) (simp add: nt linked_reads[OF l])
  also have "\<dots> = Some (Inr (rev ((Some a, val (nodes s ! a)) # acc) @
                 map (\<lambda>a. (Some a, val (nodes s ! a))) (rev xs)))"
    by (rule snoc.IH[OF c]) (use snoc.prems in simp)
  finally show ?case by simp
qed

lemma reverse_for_each_from_chain:
  assumes "begin_it s = Inr (Some f)" and "chainp s (f # xs)" and "f \<notin> set xs"
  shows "reverse_for_each_from s (Some (last (f # xs))) acc =
           Some (Inr (rev acc @ map (\<lambda>a. (Some a, val (nodes s ! a))) (rev (butlast (f # xs)))))"
  using assms(2,3)
proof (induction xs arbitrary: acc rule: rev_induct)
  case Nil
  then show ?case using assms(1) by (subst reverse_for_each_from.simps) simp
next
  case (snoc a xs)
  define b where "b = last (f # xs)"
  have ne: "f # xs \<noteq> []" "[a] \<noteq> []" by simp_all
  have "chainp s ((f # xs) @ [a])" using snoc.prems by simp
  then have l: "linked s b a" and c: "chainp s (f # xs)"
    using chainp_append2[OF ne, of s] unfolding b_def by simp_all
  have nt: "a \<noteq> f" using snoc.prems by auto
  have bin: "b \<in> set (f # xs)" unfolding b_def by (rule last_in_set) simp
  have rd: "operator_decr s (Some a) = Inr (Some b)"
    "operator_deref s (Some b) = Inr (val (nodes s ! b))"
    using linked_reads[OF l] by simp_all
  have "reverse_for_each_from s (Some a) acc =
          reverse_for_each_from s (Some b) ((Some b, val (nodes s ! b)) # acc)"
    by (subst reverse_for_each_from.simps) (simp add: nt assms(1) rd)
  also have "\<dots> = Some (Inr (rev ((Some b, val (nodes s ! b)) # acc) @
                 map (\<lambda>a. (Some a, val (nodes s ! a))) (rev (butlast (f # xs)))))"
    unfolding b_def by (rule snoc.IH[OF c]) (use snoc.prems in simp)
  finally have "reverse_for_each_from s (Some a) acc =
      Some (Inr (rev acc @ map (\<lambda>a. (Some a, val (nodes s ! a))) (b # rev (butlast (f # xs)))))"
    by simp
  moreover have "rev (butlast (f # xs @ [a])) = b # rev (butlast (f # xs))"
    unfolding b_def
    by (metis append_butlast_last_id butlast_snoc append_Cons ne(1) rev_eq_Cons_iff rev_rev_ident)
  moreover have "last (f # xs @ [a]) = a" by simp
  ultimately show ?case by (simp only:)
qed

lemma chain_inv_begin:
  assumes "chain_inv s h ns t"
  shows "begin_it s = Inr (Some (hd (ns @ [t])))"
  using chain_inv_first_linked[OF assms] assms
  by (simp add: begin_it_def chain_inv_def linked_def)

lemma chain_inv_for_each:
  assumes "chain_inv s h ns t"
  shows "for_each s = Some (Inr (map (\<lambda>a. (Some a, val (nodes s ! a))) ns))"
proof -
  have "chainp s ([h] @ (ns @ [t]))" using assms by (simp add: chain_inv_def)
  then have c: "chainp s (ns @ [t])" using chainp_append2[of "[h]" "ns @ [t]" s] by simp
  have "for_each_from s (Some (hd (ns @ [t]))) [] =
          Some (Inr (rev [] @ map (\<lambda>a. (Some a, val (nodes s ! a))) ns))"
    by (rule for_each_from_chain[OF _ c]) (use assms in \<open>auto simp: chain_inv_def\<close>)
  then show ?thesis by (simp add: for_each_def chain_inv_begin[OF assms])
qed

lemma chain_inv_retreat:
  assumes "chain_inv s h ns t"
  shows "retreat s = Some (Inr (map (\<lambda>a. (Some a, val (nodes s ! a))) (rev ns)))"
proof -
  have "chainp s ((h # ns) @ [t])" using assms by (simp add: chain_inv_def)
  then have c: "chainp s (h # ns)" using chainp_append2[of "h # ns" "[t]" s] by simp
  have l: "prev_ptr s (m_tail s) = Inr (Some (last (h # ns)))"
    using chain_inv_last_linked[OF assms] assms by (simp add: chain_inv_def linked_def)
  have "retreat_from s (Some (last (h # ns))) [] =
          Some (Inr (rev [] @ map (\<lambda>a. (Some a, val (nodes s ! a))) (rev ns)))"
    by (rule retreat_from_chain[OF _ c]) (use assms in \<open>auto simp: chain_inv_def\<close>)
  then show ?thesis by (simp add: retreat_def l)
qed

lemma chain_inv_reverse_for_each:
  assumes "chain_inv s h ns t"
  shows "reverse_for_each s = Some (Inr (map (\<lambda>a. (Some a, val (nodes s ! a))) (rev ns)))"
proof -
  obtain f xs where fx: "ns @ [t] = f # xs" by (cases "ns @ [t]") auto
  have "chainp s ([h] @ (ns @ [t]))" using assms by (simp add: chain_inv_def)
  then have c: "chainp s (f # xs)" using chainp_append2[of "[h]" "ns @ [t]" s] fx by simp
  have d: "f \<notin> set xs" using assms fx by (auto simp: chain_inv_def)
  have b: "begin_it s = Inr (Some f)" using chain_inv_begin[OF assms] fx by simp
  have lt: "last (f # xs) = t" "butlast (f # xs) = ns"
    using fx by (metis last_snoc, metis butlast_snoc)
  have "reverse_for_each_from s (Some (last (f # xs))) [] =
          Some (Inr (rev [] @ map (\<lambda>a. (Some a, val (nodes s ! a))) (rev (butlast (f # xs)))))"
    by (rule reverse_for_each_from_chain[OF b c d])
  then show ?thesis using assms unfolding lt by (simp add: reverse_for_each_def end_it_def chain_inv_def)
qed

section \<open>Erasing from a chain\<close>

lemma and_then_case: "and_then m f = (case m of Inl e \<Rightarrow> Inl e | Inr x \<Rightarrow> f x)"
  by (cases m) simp_all

lemma erase_node_erase: "erase_node s p = and_then (erase s p) (\<lambda>(s', r). Inr s')"
  by (simp add: erase_node_def erase_def and_then_case split: sum.splits)

lemma or_stop_case:
  "or_stop s m f = (case m of Inl e \<Rightarrow> (Inl e, s) | Inr x \<Rightarrow> f x)"
  by (cases m) simp_all

lemma erase_run_erase: "erase s pos = outcome (erase_run s pos)"
  by (simp add: erase_def erase_run_def and_then_case or_stop_case split: sum.splits)

lemma erase_node_run_erase_node:
  "erase_node s node = and_then (outcome (erase_node_run s node)) (\<lambda>(s', u). Inr s')"
  by (simp add: erase_node_def erase_node_run_def and_then_case or_stop_case split: sum.splits)

lemma erase_chain:
  assumes inv: "chain_inv s h (xs @ x # ys) t"
  defines "p \<equiv> last (h # xs)" and "q \<equiv> hd (ys @ [t])"
  shows "\<exists>cp cs s'. nextc s p = Some cp \<and> prevc s q = Some cs \<and> cp \<noteq> cs \<and>
           s' = s\<lparr>refs := (refs s)[cp := Some q, cs := Some p], m_size := m_size s - 1\<rparr> \<and>
           operator_decr s (Some x) = Inr (Some p) \<and> operator_incr s (Some x) = Inr (Some q) \<and>
           erase s (Some x) = Inr (s', Some q) \<and> erase_node s (Some x) = Inr s' \<and>
           chain_inv s' h (xs @ ys) t \<and>
           operator_decr s' (Some x) = Inr (Some p) \<and> operator_incr s' (Some x) = Inr (Some q) \<and>
           operator_incr s' (Some p) = Inr (Some q) \<and> operator_decr s' (Some q) = Inr (Some p) \<and>
           (\<forall>c. nextc s x = Some c \<or> prevc s x = Some c \<longrightarrow> c \<noteq> cp \<and> c \<noteq> cs)"
proof -
  obtain cp cs where c: "nextc s p = Some cp" "prevc s q = Some cs" "cp \<noteq> cs"
    "cp < length (refs s)" "cs < length (refs s)" "linked s p x" "linked s x q"
    "nextc s x \<noteq> Some cp" "nextc s x \<noteq> Some cs" "prevc s x \<noteq> Some cp" "prevc s x \<noteq> Some cs"
    and inv': "chain_inv (s\<lparr>refs := (refs s)[cp := Some q, cs := Some p], m_size := m_size s - 1\<rparr>)
             h (xs @ ys) t"
    using erase_inv[OF inv] unfolding p_def q_def by blast
  let ?s = "s\<lparr>refs := (refs s)[cp := Some q, cs := Some p], m_size := m_size s - 1\<rparr>"
  have e: "erase s (Some x) = Inr (?s, Some q)"
    by (rule erase_linked[OF c(6,7,1,2)])
  have en: "erase_node s (Some x) = Inr ?s"
    by (simp add: erase_node_erase e)
  have r0: "operator_decr s (Some x) = Inr (Some p)" "operator_incr s (Some x) = Inr (Some q)"
    using linked_reads[OF c(6)] linked_reads[OF c(7)] by simp_all
  have bx: "x < length (nodes s)" using c(6) by (simp add: linked_iff)
  obtain cn where cn: "nextc s x = Some cn" "cn < length (refs s)" "refs s ! cn = Some q"
    using c(7) by (auto simp: linked_iff)
  obtain cv where cv: "prevc s x = Some cv" "cv < length (refs s)" "refs s ! cv = Some p"
    using c(6) by (auto simp: linked_iff)
  have r1: "operator_incr ?s (Some x) = Inr (Some q)"
    using bx cn c(8,9) by (simp add: operator_incr_def next_ptr_Some)
  have r2: "operator_decr ?s (Some x) = Inr (Some p)"
    using bx cv c(10,11) by (simp add: operator_decr_def prev_ptr_Some)
  have "linked ?s p q"
    using c by (simp add: linked_iff)
  then have r3: "operator_incr ?s (Some p) = Inr (Some q)" "operator_decr ?s (Some q) = Inr (Some p)"
    using linked_reads by blast+
  show ?thesis
    using c(1,2,3,8,9,10,11) e en r0 r1 r2 r3 inv' by auto
qed

lemma erase_loop_from_chain:
  assumes "chain_inv s h (pre @ rest) t"
  shows "\<exists>s'. erase_loop_from P s (Some (hd (rest @ [t]))) acc =
             Some (Inr (s', rev acc @ map (\<lambda>a. (Some a, val (nodes s ! a))) rest)) \<and>
           chain_inv s' h (pre @ filter (\<lambda>a. \<not> P (val (nodes s ! a))) rest) t \<and>
           nodes s' = nodes s"
  using assms
proof (induction rest arbitrary: s pre acc)
  case Nil
  then have "m_tail s = Some t" by (simp add: chain_inv_def)
  then have "erase_loop_from P s (Some t) acc = Some (Inr (s, rev acc))"
    by (subst erase_loop_from.simps) (simp add: end_it_def)
  then show ?case using Nil by simp
next
  case (Cons x rest)
  define q where "q = hd (rest @ [t])"
  define v where "v = val (nodes s ! x)"
  have inv: "chain_inv s h (pre @ x # rest) t" by (rule Cons.prems)
  have tl: "m_tail s = Some t" and xt: "x \<noteq> t"
    using inv by (auto simp: chain_inv_def)
  have nt: "Some x \<noteq> end_it s" using tl xt by (simp add: end_it_def)
  obtain s1 where s1: "erase s (Some x) = Inr (s1, Some q)"
    and r0: "operator_incr s (Some x) = Inr (Some q)"
    and inv1: "chain_inv s1 h (pre @ rest) t"
    and r1: "operator_incr s1 (Some x) = Inr (Some q)"
    and n1: "nodes s1 = nodes s"
    using erase_chain[OF inv] unfolding q_def by auto
  have bx: "operator_deref s (Some x) = Inr v"
    using r0 unfolding v_def
    by (auto simp: operator_incr_def operator_deref_def next_ptr_Some node_at_def)
  show ?case
  proof (cases "P v")
    case True
    obtain s' where
      l: "erase_loop_from P s1 (Some q) ((Some x, v) # acc) =
           Some (Inr (s', rev ((Some x, v) # acc) @ map (\<lambda>a. (Some a, val (nodes s1 ! a))) rest))"
      and i: "chain_inv s' h (pre @ filter (\<lambda>a. \<not> P (val (nodes s1 ! a))) rest) t"
      and n: "nodes s' = nodes s1"
      using Cons.IH[OF inv1, of "(Some x, v) # acc"] unfolding q_def by blast
    have "erase_loop_from P s (Some x) acc = erase_loop_from P s1 (Some q) ((Some x, v) # acc)"
      by (subst erase_loop_from.simps) (simp add: nt bx True s1 r1)
    then show ?thesis using l i n True unfolding n1 v_def by simp
  next
    case False
    have inv2: "chain_inv s h ((pre @ [x]) @ rest) t" using inv by simp
    obtain s' where
      l: "erase_loop_from P s (Some q) ((Some x, v) # acc) =
           Some (Inr (s', rev ((Some x, v) # acc) @ map (\<lambda>a. (Some a, val (nodes s ! a))) rest))"
      and i: "chain_inv s' h ((pre @ [x]) @ filter (\<lambda>a. \<not> P (val (nodes s ! a))) rest) t"
      and n: "nodes s' = nodes s"
      using Cons.IH[OF inv2, of "(Some x, v) # acc"] unfolding q_def by blast
    have "erase_loop_from P s (Some x) acc = erase_loop_from P s (Some q) ((Some x, v) # acc)"
      by (subst erase_loop_from.simps) (simp add: nt bx False r0)
    then show ?thesis using l i n False unfolding v_def by simp
  qed
qed

lemma chain_inv_erase_loop:
  assumes "chain_inv s h ns t"
  shows "\<exists>s'. erase_loop P s = Some (Inr (s', map (\<lambda>a. (Some a, val (nodes s ! a))) ns)) \<and>
           chain_inv s' h (filter (\<lambda>a. \<not> P (val (nodes s ! a))) ns) t \<and> nodes s' = nodes s"
proof -
  have "chain_inv s h ([] @ ns) t" using assms by simp
  from erase_loop_from_chain[OF this, of P "[]"] show ?thesis
    by (simp add: erase_loop_def chain_inv_begin[OF assms])
qed

section \<open>Every reachable list is a chain\<close>

lemma chain_inv_attached:
  assumes "chain_inv s h ns t"
  shows "attached s pos \<longleftrightarrow> pos \<in> Some ` set ns"
  by (auto simp: attached_def chain_inv_for_each[OF assms] image_iff)

lemma clear_inv:
  assumes inv: "chain_inv s h ns t"
  shows "\<exists>s'. clear s = Inr s' \<and> chain_inv s' h [] t"
proof -
  have ht: "m_head s = Some h" "m_tail s = Some t" "h \<noteq> t" "prevc s h = None" "nextc s t = None"
    using inv by (auto simp: chain_inv_def)
  have "h \<in> set (h # ns @ [t])" "t \<in> set (h # ns @ [t])" by simp_all
  moreover have "chainp s (h # ns @ [t])" using inv by (simp add: chain_inv_def)
  ultimately have b: "h < length (nodes s)" "t < length (nodes s)"
    using chainp_bounds[of s h "ns @ [t]"] by simp_all
  show ?thesis
    using ht b
    by (simp add: clear_def link_def make_shared_Ref_def set_next_def set_prev_def
        chain_inv_def linked_iff nextc_def prevc_def nth_append)
qed

lemma pop_back_inv:
  assumes inv: "chain_inv s h ns t"
  shows "\<exists>s' ns'. pop_back s = Inr s' \<and> chain_inv s' h ns' t"
proof (cases "empty_list s")
  case True
  then have "pop_back s = Inr s" by (simp add: pop_back_def)
  then show ?thesis using inv by blast
next
  case False
  then have ne: "ns \<noteq> []" using inv by (auto simp: empty_list_def chain_inv_def)
  then have split: "ns = butlast ns @ last ns # []" by simp
  have l: "prev_ptr s (m_tail s) = Inr (Some (last ns))"
    using chain_inv_last_linked[OF inv] inv ne by (simp add: chain_inv_def linked_def)
  have "chain_inv s h (butlast ns @ last ns # []) t" using inv split by simp
  from erase_chain[OF this] obtain s' where
    "erase s (Some (last ns)) = Inr (s', Some (hd ([] @ [t])))" "chain_inv s' h (butlast ns @ []) t"
    by blast
  then show ?thesis using False l by (auto simp: pop_back_def)
qed

lemma pop_front_inv:
  assumes inv: "chain_inv s h ns t"
  shows "\<exists>s' ns'. pop_front s = Inr s' \<and> chain_inv s' h ns' t"
proof (cases "empty_list s")
  case True
  then have "pop_front s = Inr s" by (simp add: pop_front_def)
  then show ?thesis using inv by blast
next
  case False
  then have ne: "ns \<noteq> []" using inv by (auto simp: empty_list_def chain_inv_def)
  then have split: "ns = [] @ hd ns # tl ns" by simp
  have l: "begin_it s = Inr (Some (hd ns))"
    using chain_inv_begin[OF inv] ne by simp
  have "chain_inv s h ([] @ hd ns # tl ns) t" using inv split by simp
  from erase_chain[OF this] obtain s' where
    "erase s (Some (hd ns)) = Inr (s', Some (hd (tl ns @ [t])))" "chain_inv s' h ([] @ tl ns) t"
    by blast
  then show ?thesis using False l by (auto simp: pop_front_def)
qed

lemma reachable_chain:
  assumes "reachable s"
  shows "\<exists>h ns t. chain_inv s h ns t"
  using assms
proof (induction rule: reachable.induct)
  case (reach_new d s)
  then have "chain_inv s 0 [] 1" using MutableList_default_inv[of d] by auto
  then show ?case by blast
next
  case (reach_push_back s v s')
  then obtain h ns t where inv: "chain_inv s h ns t" by blast
  from emplace_back_inv[OF inv, of v] reach_push_back.hyps(2)
  have "chain_inv s' h (ns @ [length (nodes s)]) t"
    by (auto simp: push_back_def)
  then show ?case by blast
next
  case (reach_push_front s v s')
  then obtain h ns t where inv: "chain_inv s h ns t" by blast
  from emplace_front_inv[OF inv, of v] reach_push_front.hyps(2)
  have "chain_inv s' h (length (nodes s) # ns) t"
    by (auto simp: push_front_def)
  then show ?case by blast
next
  case (reach_erase s pos s' r)
  then obtain h ns t where inv: "chain_inv s h ns t" by blast
  then obtain x where x: "pos = Some x" "x \<in> set ns"
    using reach_erase.hyps(2) chain_inv_attached[OF inv] by auto
  then obtain xs ys where "ns = xs @ x # ys" by (meson split_list)
  with inv have "chain_inv s h (xs @ x # ys) t" by simp
  from erase_chain[OF this] reach_erase.hyps(3) x
  have "chain_inv s' h (xs @ ys) t" by auto
  then show ?case by blast
next
  case (reach_erase_node s pos s')
  then obtain h ns t where inv: "chain_inv s h ns t" by blast
  then obtain x where x: "pos = Some x" "x \<in> set ns"
    using reach_erase_node.hyps(2) chain_inv_attached[OF inv] by auto
  then obtain xs ys where "ns = xs @ x # ys" by (meson split_list)
  with inv have "chain_inv s h (xs @ x # ys) t" by simp
  from erase_chain[OF this] reach_erase_node.hyps(3) x
  have "chain_inv s' h (xs @ ys) t" by auto
  then show ?case by blast
next
  case (reach_pop_back s s')
  then obtain h ns t where inv: "chain_inv s h ns t" by blast
  from pop_back_inv[OF inv] reach_pop_back.hyps(2)
  obtain ns' where "chain_inv s' h ns' t" by auto
  then show ?case by blast
next
  case (reach_pop_front s s')
  then obtain h ns t where inv: "chain_inv s h ns t" by blast
  from pop_front_inv[OF inv] reach_pop_front.hyps(2)
  obtain ns' where "chain_inv s' h ns' t" by auto
  then show ?case by blast
next
  case (reach_clear s s')
  then obtain h ns t where inv: "chain_inv s h ns t" by blast
  from clear_inv[OF inv] reach_clear.hyps(2)
  have "chain_inv s' h [] t" by auto
  then show ?case by blast
qed

lemma chainp_succ:
  "chainp s P \<Longrightarrow> a \<in> set (butlast P) \<Longrightarrow> \<exists>b. linked s a b"
  by (induction s P rule: chainp.induct) (auto split: if_splits)

section \<open>Claims\<close>

subsection \<open>Two lists to try the theorems on\<close>

lemma reachable_push_back_all:
  "reachable s \<Longrightarrow> push_back_all s vs = Inr s' \<Longrightarrow> reachable s'"
proof (induction vs arbitrary: s)
  case Nil
  then show ?case by simp
next
  case (Cons v vs)
  show ?case
  proof (cases "push_back s v")
    case (Inl e)
    with Cons.prems show ?thesis by simp
  next
    case (Inr s1)
    with Cons.prems have "reachable s1" "push_back_all s1 vs = Inr s'"
      by (auto intro: reach_push_back)
    then show ?thesis by (rule Cons.IH)
  qed
qed

lemma reachable_init: "MutableList_init d vs = Inr s \<Longrightarrow> reachable s"
  by (cases "MutableList_default d")
     (auto simp: MutableList_init_def intro: reachable_push_back_all reach_new)

lemma init_none:
  "MutableList_init (''''::string) [] = Inr \<lparr>nodes = [\<lparr>next = Some 0, prev = None, val = ''''\<rparr>,
                \<lparr>next = None, prev = Some 1, val = ''''\<rparr>],
        refs = [Some 1, Some 0], m_head = Some 0, m_tail = Some 1, m_size = 0\<rparr>"
  by code_simp

lemma init_two:
  "MutableList_init '''' [''a'', ''b''] = Inr \<lparr>nodes = [\<lparr>next = Some 2, prev = None, val = ''''\<rparr>,
                \<lparr>next = None, prev = Some 9, val = ''''\<rparr>,
                \<lparr>next = Some 6, prev = Some 3, val = ''a''\<rparr>,
                \<lparr>next = Some 8, prev = Some 7, val = ''b''\<rparr>],
        refs = [Some 1, Some 0, Some 2, Some 0, Some 1, Some 2, Some 3, Some 2, Some 1, Some 3],
        m_head = Some 0, m_tail = Some 1, m_size = 2\<rparr>"
  by code_simp

lemma for_each_two:
  "for_each \<lparr>nodes = [\<lparr>next = Some 2, prev = None, val = ''''\<rparr>,
                \<lparr>next = None, prev = Some 9, val = ''''\<rparr>,
                \<lparr>next = Some 6, prev = Some 3, val = ''a''\<rparr>,
                \<lparr>next = Some 8, prev = Some 7, val = ''b''\<rparr>],
        refs = [Some 1, Some 0, Some 2, Some 0, Some 1, Some 2, Some 3, Some 2, Some 1, Some 3],
        m_head = Some 0, m_tail = Some 1, m_size = 2\<rparr> = Some (Inr [(Some 2, ''a''), (Some 3, ''b'')])"
  by code_simp

text \<open>
  C10. On an empty list \<^verbatim>\<open>pop_back\<close> and \<^verbatim>\<open>pop_front\<close> do nothing: the
  guard \<^verbatim>\<open>if (!empty())\<close> skips the call of \<^verbatim>\<open>erase\<close>, so the list and the store
  come back as they were; \<^verbatim>\<open>size()\<close> is still 0 and the links of the sentinels are
  the same cells with the same contents.
\<close>

theorem pop_on_empty_is_noop:
  "empty_list s \<Longrightarrow>
     pop_back s = Inr s \<and> pop_front s = Inr s \<and> size_of s = 0"
  by (simp add: pop_back_def pop_front_def empty_list_def size_of_def)

theorem pop_on_empty_is_noop_witness:
  "empty_list \<lparr>nodes = [\<lparr>next = Some 0, prev = None, val = (''''::string)\<rparr>,
                \<lparr>next = None, prev = Some 1, val = ''''\<rparr>],
        refs = [Some 1, Some 0], m_head = Some 0, m_tail = Some 1, m_size = 0\<rparr> \<and>
   pop_back \<lparr>nodes = [\<lparr>next = Some 0, prev = None, val = (''''::string)\<rparr>,
                \<lparr>next = None, prev = Some 1, val = ''''\<rparr>],
        refs = [Some 1, Some 0], m_head = Some 0, m_tail = Some 1, m_size = 0\<rparr> = Inr \<lparr>nodes = [\<lparr>next = Some 0, prev = None, val = ''''\<rparr>,
                \<lparr>next = None, prev = Some 1, val = ''''\<rparr>],
        refs = [Some 1, Some 0], m_head = Some 0, m_tail = Some 1, m_size = 0\<rparr> \<and>
   pop_front \<lparr>nodes = [\<lparr>next = Some 0, prev = None, val = (''''::string)\<rparr>,
                \<lparr>next = None, prev = Some 1, val = ''''\<rparr>],
        refs = [Some 1, Some 0], m_head = Some 0, m_tail = Some 1, m_size = 0\<rparr> = Inr \<lparr>nodes = [\<lparr>next = Some 0, prev = None, val = ''''\<rparr>,
                \<lparr>next = None, prev = Some 1, val = ''''\<rparr>],
        refs = [Some 1, Some 0], m_head = Some 0, m_tail = Some 1, m_size = 0\<rparr> \<and>
   next_ptr \<lparr>nodes = [\<lparr>next = Some 0, prev = None, val = (''''::string)\<rparr>,
                \<lparr>next = None, prev = Some 1, val = ''''\<rparr>],
        refs = [Some 1, Some 0], m_head = Some 0, m_tail = Some 1, m_size = 0\<rparr> (Some 0) = Inr (Some 1) \<and>
   prev_ptr \<lparr>nodes = [\<lparr>next = Some 0, prev = None, val = (''''::string)\<rparr>,
                \<lparr>next = None, prev = Some 1, val = ''''\<rparr>],
        refs = [Some 1, Some 0], m_head = Some 0, m_tail = Some 1, m_size = 0\<rparr> (Some 1) = Inr (Some 0)"
proof -
  have e: "empty_list \<lparr>nodes = [\<lparr>next = Some 0, prev = None, val = (''''::string)\<rparr>,
                \<lparr>next = None, prev = Some 1, val = ''''\<rparr>],
        refs = [Some 1, Some 0], m_head = Some 0, m_tail = Some 1, m_size = 0\<rparr>"
    by (simp add: empty_list_def)
  show ?thesis
    using e pop_on_empty_is_noop[OF e]
    by (simp add: next_ptr_def prev_ptr_def node_at_def ref_at_def)
qed

text \<open>
  C1, as the specification states it: \<^verbatim>\<open>erase\<close> on a cursor at a sentinel fails
  with invalid-operation and leaves the list as it was. \<^verbatim>\<open>erase\<close> has no test
  for sentinels. On the empty list, \<^verbatim>\<open>erase(end())\<close> reads \<^verbatim>\<open>tail_->next->ptr\<close>
  and \<^verbatim>\<open>erase\<close> at the head sentinel reads \<^verbatim>\<open>head_->prev->ptr\<close>, both through
  an empty \<^verbatim>\<open>shared_ptr\<close>: the call ends in a null dereference, not in
  invalid-operation.
\<close>

theorem erase_sentinel_counterexample:
  "erase \<lparr>nodes = [\<lparr>next = Some 0, prev = None, val = (''''::string)\<rparr>,
                \<lparr>next = None, prev = Some 1, val = ''''\<rparr>],
        refs = [Some 1, Some 0], m_head = Some 0, m_tail = Some 1, m_size = 0\<rparr> (end_it \<lparr>nodes = [\<lparr>next = Some 0, prev = None, val = (''''::string)\<rparr>,
                \<lparr>next = None, prev = Some 1, val = ''''\<rparr>],
        refs = [Some 1, Some 0], m_head = Some 0, m_tail = Some 1, m_size = 0\<rparr>) = Inl NullDereference \<and>
   erase \<lparr>nodes = [\<lparr>next = Some 0, prev = None, val = (''''::string)\<rparr>,
                \<lparr>next = None, prev = Some 1, val = ''''\<rparr>],
        refs = [Some 1, Some 0], m_head = Some 0, m_tail = Some 1, m_size = 0\<rparr> (end_it \<lparr>nodes = [\<lparr>next = Some 0, prev = None, val = (''''::string)\<rparr>,
                \<lparr>next = None, prev = Some 1, val = ''''\<rparr>],
        refs = [Some 1, Some 0], m_head = Some 0, m_tail = Some 1, m_size = 0\<rparr>) \<noteq> Inl InvalidOperation \<and>
   erase \<lparr>nodes = [\<lparr>next = Some 0, prev = None, val = (''''::string)\<rparr>,
                \<lparr>next = None, prev = Some 1, val = ''''\<rparr>],
        refs = [Some 1, Some 0], m_head = Some 0, m_tail = Some 1, m_size = 0\<rparr> (m_head \<lparr>nodes = [\<lparr>next = Some 0, prev = None, val = (''''::string)\<rparr>,
                \<lparr>next = None, prev = Some 1, val = ''''\<rparr>],
        refs = [Some 1, Some 0], m_head = Some 0, m_tail = Some 1, m_size = 0\<rparr>) = Inl NullDereference \<and>
   erase \<lparr>nodes = [\<lparr>next = Some 0, prev = None, val = (''''::string)\<rparr>,
                \<lparr>next = None, prev = Some 1, val = ''''\<rparr>],
        refs = [Some 1, Some 0], m_head = Some 0, m_tail = Some 1, m_size = 0\<rparr> (m_head \<lparr>nodes = [\<lparr>next = Some 0, prev = None, val = (''''::string)\<rparr>,
                \<lparr>next = None, prev = Some 1, val = ''''\<rparr>],
        refs = [Some 1, Some 0], m_head = Some 0, m_tail = Some 1, m_size = 0\<rparr>) \<noteq> Inl InvalidOperation"
  by (simp add: erase_def end_it_def next_ptr_def prev_ptr_def node_at_def ref_at_def)

text \<open>
  C1, amended. On every reachable list, \<^verbatim>\<open>erase\<close> and \<^verbatim>\<open>erase_node\<close> on the
  head or the tail sentinel end in a null dereference: the outer link of a sentinel
  (\<^verbatim>\<open>head_->prev\<close>, \<^verbatim>\<open>tail_->next\<close>) is an empty pointer, and it is read in one
  of the first two statements, before the two writes and before \<^verbatim>\<open>--size_\<close>.
  The store in which the call ends is the store in which it began: no cell has been
  written, no node has been given another cell, and \<^verbatim>\<open>size_\<close> has not been
  decremented. No invalid-operation is signalled.
\<close>

theorem erase_sentinel_null_dereference:
  assumes "reachable s" and "pos = m_head s \<or> pos = m_tail s"
  shows "erase_run s pos = (Inl NullDereference, s) \<and>
         erase_node_run s pos = (Inl NullDereference, s) \<and>
         erase s pos = Inl NullDereference \<and> erase_node s pos = Inl NullDereference \<and>
         (pos = m_head s \<longrightarrow> prev_ptr s pos = Inl NullDereference) \<and>
         (pos = m_tail s \<longrightarrow> next_ptr s pos = Inl NullDereference)"
proof -
  obtain h ns t where inv: "chain_inv s h ns t"
    using reachable_chain[OF assms(1)] by blast
  have ht: "m_head s = Some h" "m_tail s = Some t" "prevc s h = None" "nextc s t = None"
    using inv by (simp_all add: chain_inv_def)
  have lh: "linked s h (hd (ns @ [t]))" by (rule chain_inv_first_linked[OF inv])
  have lt: "linked s (last (h # ns)) t" by (rule chain_inv_last_linked[OF inv])
  have b: "h < length (nodes s)" "t < length (nodes s)"
    using lh lt linked_iff[of s h] linked_iff[of s _ t] by blast+
  have ph: "prev_ptr s (Some h) = Inl NullDereference"
    using ht(3) b(1) by (simp add: prev_ptr_def node_at_def ref_at_def prevc_def)
  have nt: "next_ptr s (Some t) = Inl NullDereference"
    using ht(4) b(2) by (simp add: next_ptr_def node_at_def ref_at_def nextc_def)
  have pt: "prev_ptr s (Some t) = Inr (Some (last (h # ns)))"
    using lt unfolding linked_def by blast
  have run: "erase_run s (Some h) = (Inl NullDereference, s)"
    "erase_run s (Some t) = (Inl NullDereference, s)"
    "erase_node_run s (Some h) = (Inl NullDereference, s)"
    "erase_node_run s (Some t) = (Inl NullDereference, s)"
    by (simp_all add: erase_run_def erase_node_run_def ph nt pt)
  have "erase s (Some h) = Inl NullDereference" "erase s (Some t) = Inl NullDereference"
    by (simp_all add: erase_run_erase run)
  then show ?thesis
    using assms(2) ht(1,2) ph nt run by (auto simp: erase_node_erase)
qed

theorem erase_sentinel_null_dereference_witness:
  "reachable \<lparr>nodes = [\<lparr>next = Some 2, prev = None, val = ''''\<rparr>,
                \<lparr>next = None, prev = Some 9, val = ''''\<rparr>,
                \<lparr>next = Some 6, prev = Some 3, val = ''a''\<rparr>,
                \<lparr>next = Some 8, prev = Some 7, val = ''b''\<rparr>],
        refs = [Some 1, Some 0, Some 2, Some 0, Some 1, Some 2, Some 3, Some 2, Some 1, Some 3],
        m_head = Some 0, m_tail = Some 1, m_size = 2\<rparr> \<and>
   erase_run \<lparr>nodes = [\<lparr>next = Some 2, prev = None, val = ''''\<rparr>,
                \<lparr>next = None, prev = Some 9, val = ''''\<rparr>,
                \<lparr>next = Some 6, prev = Some 3, val = ''a''\<rparr>,
                \<lparr>next = Some 8, prev = Some 7, val = ''b''\<rparr>],
        refs = [Some 1, Some 0, Some 2, Some 0, Some 1, Some 2, Some 3, Some 2, Some 1, Some 3],
        m_head = Some 0, m_tail = Some 1, m_size = 2\<rparr> (Some 0) =
     (Inl NullDereference, \<lparr>nodes = [\<lparr>next = Some 2, prev = None, val = ''''\<rparr>,
                \<lparr>next = None, prev = Some 9, val = ''''\<rparr>,
                \<lparr>next = Some 6, prev = Some 3, val = ''a''\<rparr>,
                \<lparr>next = Some 8, prev = Some 7, val = ''b''\<rparr>],
        refs = [Some 1, Some 0, Some 2, Some 0, Some 1, Some 2, Some 3, Some 2, Some 1, Some 3],
        m_head = Some 0, m_tail = Some 1, m_size = 2\<rparr>) \<and>
   erase_run \<lparr>nodes = [\<lparr>next = Some 2, prev = None, val = ''''\<rparr>,
                \<lparr>next = None, prev = Some 9, val = ''''\<rparr>,
                \<lparr>next = Some 6, prev = Some 3, val = ''a''\<rparr>,
                \<lparr>next = Some 8, prev = Some 7, val = ''b''\<rparr>],
        refs = [Some 1, Some 0, Some 2, Some 0, Some 1, Some 2, Some 3, Some 2, Some 1, Some 3],
        m_head = Some 0, m_tail = Some 1, m_size = 2\<rparr> (Some 1) =
     (Inl NullDereference, \<lparr>nodes = [\<lparr>next = Some 2, prev = None, val = ''''\<rparr>,
                \<lparr>next = None, prev = Some 9, val = ''''\<rparr>,
                \<lparr>next = Some 6, prev = Some 3, val = ''a''\<rparr>,
                \<lparr>next = Some 8, prev = Some 7, val = ''b''\<rparr>],
        refs = [Some 1, Some 0, Some 2, Some 0, Some 1, Some 2, Some 3, Some 2, Some 1, Some 3],
        m_head = Some 0, m_tail = Some 1, m_size = 2\<rparr>) \<and>
   erase_node_run \<lparr>nodes = [\<lparr>next = Some 2, prev = None, val = ''''\<rparr>,
                \<lparr>next = None, prev = Some 9, val = ''''\<rparr>,
                \<lparr>next = Some 6, prev = Some 3, val = ''a''\<rparr>,
                \<lparr>next = Some 8, prev = Some 7, val = ''b''\<rparr>],
        refs = [Some 1, Some 0, Some 2, Some 0, Some 1, Some 2, Some 3, Some 2, Some 1, Some 3],
        m_head = Some 0, m_tail = Some 1, m_size = 2\<rparr> (Some 1) =
     (Inl NullDereference, \<lparr>nodes = [\<lparr>next = Some 2, prev = None, val = ''''\<rparr>,
                \<lparr>next = None, prev = Some 9, val = ''''\<rparr>,
                \<lparr>next = Some 6, prev = Some 3, val = ''a''\<rparr>,
                \<lparr>next = Some 8, prev = Some 7, val = ''b''\<rparr>],
        refs = [Some 1, Some 0, Some 2, Some 0, Some 1, Some 2, Some 3, Some 2, Some 1, Some 3],
        m_head = Some 0, m_tail = Some 1, m_size = 2\<rparr>) \<and>
   erase \<lparr>nodes = [\<lparr>next = Some 2, prev = None, val = ''''\<rparr>,
                \<lparr>next = None, prev = Some 9, val = ''''\<rparr>,
                \<lparr>next = Some 6, prev = Some 3, val = ''a''\<rparr>,
                \<lparr>next = Some 8, prev = Some 7, val = ''b''\<rparr>],
        refs = [Some 1, Some 0, Some 2, Some 0, Some 1, Some 2, Some 3, Some 2, Some 1, Some 3],
        m_head = Some 0, m_tail = Some 1, m_size = 2\<rparr> (Some 0) = Inl NullDereference \<and>
   erase \<lparr>nodes = [\<lparr>next = Some 2, prev = None, val = ''''\<rparr>,
                \<lparr>next = None, prev = Some 9, val = ''''\<rparr>,
                \<lparr>next = Some 6, prev = Some 3, val = ''a''\<rparr>,
                \<lparr>next = Some 8, prev = Some 7, val = ''b''\<rparr>],
        refs = [Some 1, Some 0, Some 2, Some 0, Some 1, Some 2, Some 3, Some 2, Some 1, Some 3],
        m_head = Some 0, m_tail = Some 1, m_size = 2\<rparr> (Some 1) = Inl NullDereference \<and>
   erase_node \<lparr>nodes = [\<lparr>next = Some 2, prev = None, val = ''''\<rparr>,
                \<lparr>next = None, prev = Some 9, val = ''''\<rparr>,
                \<lparr>next = Some 6, prev = Some 3, val = ''a''\<rparr>,
                \<lparr>next = Some 8, prev = Some 7, val = ''b''\<rparr>],
        refs = [Some 1, Some 0, Some 2, Some 0, Some 1, Some 2, Some 3, Some 2, Some 1, Some 3],
        m_head = Some 0, m_tail = Some 1, m_size = 2\<rparr> (Some 1) = Inl NullDereference"
proof -
  have r: "reachable \<lparr>nodes = [\<lparr>next = Some 2, prev = None, val = ''''\<rparr>,
                \<lparr>next = None, prev = Some 9, val = ''''\<rparr>,
                \<lparr>next = Some 6, prev = Some 3, val = ''a''\<rparr>,
                \<lparr>next = Some 8, prev = Some 7, val = ''b''\<rparr>],
        refs = [Some 1, Some 0, Some 2, Some 0, Some 1, Some 2, Some 3, Some 2, Some 1, Some 3],
        m_head = Some 0, m_tail = Some 1, m_size = 2\<rparr>"
    by (rule reachable_init[OF init_two])
  show ?thesis
    using r erase_sentinel_null_dereference[OF r, of "Some 0"]
      erase_sentinel_null_dereference[OF r, of "Some 1"]
    by simp
qed

text \<open>
  C8, as the specification states it: dereferencing a cursor at a sentinel fails with
  invalid-state, and \<^verbatim>\<open>front()\<close> and \<^verbatim>\<open>back()\<close> fail on an empty list.
  \<^verbatim>\<open>operator*\<close>, \<^verbatim>\<open>front()\<close> and \<^verbatim>\<open>back()\<close> test nothing. On the empty list
  of strings, \<^verbatim>\<open>*end()\<close> and \<^verbatim>\<open>front()\<close> return the value member of the tail
  sentinel and \<^verbatim>\<open>back()\<close> that of the head sentinel: the empty string.
\<close>

theorem deref_sentinel_counterexample:
  "operator_deref \<lparr>nodes = [\<lparr>next = Some 0, prev = None, val = (''''::string)\<rparr>,
                \<lparr>next = None, prev = Some 1, val = ''''\<rparr>],
        refs = [Some 1, Some 0], m_head = Some 0, m_tail = Some 1, m_size = 0\<rparr> (end_it \<lparr>nodes = [\<lparr>next = Some 0, prev = None, val = (''''::string)\<rparr>,
                \<lparr>next = None, prev = Some 1, val = ''''\<rparr>],
        refs = [Some 1, Some 0], m_head = Some 0, m_tail = Some 1, m_size = 0\<rparr>) = Inr '''' \<and>
   operator_deref \<lparr>nodes = [\<lparr>next = Some 0, prev = None, val = (''''::string)\<rparr>,
                \<lparr>next = None, prev = Some 1, val = ''''\<rparr>],
        refs = [Some 1, Some 0], m_head = Some 0, m_tail = Some 1, m_size = 0\<rparr> (end_it \<lparr>nodes = [\<lparr>next = Some 0, prev = None, val = (''''::string)\<rparr>,
                \<lparr>next = None, prev = Some 1, val = ''''\<rparr>],
        refs = [Some 1, Some 0], m_head = Some 0, m_tail = Some 1, m_size = 0\<rparr>) \<noteq> Inl InvalidState \<and>
   front \<lparr>nodes = [\<lparr>next = Some 0, prev = None, val = (''''::string)\<rparr>,
                \<lparr>next = None, prev = Some 1, val = ''''\<rparr>],
        refs = [Some 1, Some 0], m_head = Some 0, m_tail = Some 1, m_size = 0\<rparr> = Inr '''' \<and>
   back_of \<lparr>nodes = [\<lparr>next = Some 0, prev = None, val = (''''::string)\<rparr>,
                \<lparr>next = None, prev = Some 1, val = ''''\<rparr>],
        refs = [Some 1, Some 0], m_head = Some 0, m_tail = Some 1, m_size = 0\<rparr> = Inr ''''"
  by (simp add: operator_deref_def end_it_def front_def back_of_def next_ptr_def prev_ptr_def
      node_at_def ref_at_def)

text \<open>
  C8, amended. On every reachable list, dereferencing a cursor at the head or the tail
  sentinel returns the \<^verbatim>\<open>value\<close> member of that sentinel and does not fail; on a
  list without ordinary nodes \<^verbatim>\<open>front()\<close> returns the value member of the tail
  sentinel and \<^verbatim>\<open>back()\<close> that of the head sentinel.
\<close>

theorem deref_sentinel_returns_value:
  assumes "reachable s"
  shows "\<exists>h t. m_head s = Some h \<and> m_tail s = Some t \<and>
           operator_deref s (m_head s) = Inr (val (nodes s ! h)) \<and>
           operator_deref s (end_it s) = Inr (val (nodes s ! t)) \<and>
           (for_each s = Some (Inr []) \<longrightarrow>
              front s = Inr (val (nodes s ! t)) \<and> back_of s = Inr (val (nodes s ! h)))"
proof -
  obtain h ns t where inv: "chain_inv s h ns t"
    using reachable_chain[OF assms(1)] by blast
  have ht: "m_head s = Some h" "m_tail s = Some t"
    using inv by (simp_all add: chain_inv_def)
  have lh: "linked s h (hd (ns @ [t]))" by (rule chain_inv_first_linked[OF inv])
  have lt: "linked s (last (h # ns)) t" by (rule chain_inv_last_linked[OF inv])
  have b: "h < length (nodes s)" "t < length (nodes s)"
    using lh lt linked_iff[of s h] linked_iff[of s _ t] by blast+
  have d: "operator_deref s (Some h) = Inr (val (nodes s ! h))"
    "operator_deref s (Some t) = Inr (val (nodes s ! t))"
    using b by (simp_all add: operator_deref_def node_at_def)
  have "front s = Inr (val (nodes s ! t)) \<and> back_of s = Inr (val (nodes s ! h))"
    if "for_each s = Some (Inr [])"
  proof -
    have "ns = []" using that chain_inv_for_each[OF inv] by simp
    then have "next_ptr s (Some h) = Inr (Some t)" "prev_ptr s (Some t) = Inr (Some h)"
      using lh lt by (simp_all add: linked_def)
    then show ?thesis using b ht by (simp add: front_def back_of_def node_at_def)
  qed
  then show ?thesis using ht d by (simp add: end_it_def)
qed

theorem deref_sentinel_returns_value_witness:
  "reachable \<lparr>nodes = [\<lparr>next = Some 0, prev = None, val = (''''::string)\<rparr>,
                \<lparr>next = None, prev = Some 1, val = ''''\<rparr>],
        refs = [Some 1, Some 0], m_head = Some 0, m_tail = Some 1, m_size = 0\<rparr> \<and>
   for_each \<lparr>nodes = [\<lparr>next = Some 0, prev = None, val = (''''::string)\<rparr>,
                \<lparr>next = None, prev = Some 1, val = ''''\<rparr>],
        refs = [Some 1, Some 0], m_head = Some 0, m_tail = Some 1, m_size = 0\<rparr> = Some (Inr []) \<and>
   operator_deref \<lparr>nodes = [\<lparr>next = Some 0, prev = None, val = (''''::string)\<rparr>,
                \<lparr>next = None, prev = Some 1, val = ''''\<rparr>],
        refs = [Some 1, Some 0], m_head = Some 0, m_tail = Some 1, m_size = 0\<rparr> (Some 0) = Inr '''' \<and>
   operator_deref \<lparr>nodes = [\<lparr>next = Some 0, prev = None, val = (''''::string)\<rparr>,
                \<lparr>next = None, prev = Some 1, val = ''''\<rparr>],
        refs = [Some 1, Some 0], m_head = Some 0, m_tail = Some 1, m_size = 0\<rparr> (Some 1) = Inr '''' \<and>
   front \<lparr>nodes = [\<lparr>next = Some 0, prev = None, val = (''''::string)\<rparr>,
                \<lparr>next = None, prev = Some 1, val = ''''\<rparr>],
        refs = [Some 1, Some 0], m_head = Some 0, m_tail = Some 1, m_size = 0\<rparr> = Inr '''' \<and>
   back_of \<lparr>nodes = [\<lparr>next = Some 0, prev = None, val = (''''::string)\<rparr>,
                \<lparr>next = None, prev = Some 1, val = ''''\<rparr>],
        refs = [Some 1, Some 0], m_head = Some 0, m_tail = Some 1, m_size = 0\<rparr> = Inr ''''"
proof -
  have r: "reachable \<lparr>nodes = [\<lparr>next = Some 0, prev = None, val = (''''::string)\<rparr>,
                \<lparr>next = None, prev = Some 1, val = ''''\<rparr>],
        refs = [Some 1, Some 0], m_head = Some 0, m_tail = Some 1, m_size = 0\<rparr>"
    by (rule reachable_init[OF init_none])
  have f: "for_each \<lparr>nodes = [\<lparr>next = Some 0, prev = None, val = (''''::string)\<rparr>,
                \<lparr>next = None, prev = Some 1, val = ''''\<rparr>],
        refs = [Some 1, Some 0], m_head = Some 0, m_tail = Some 1, m_size = 0\<rparr> = Some (Inr [])"
    by code_simp
  show ?thesis
    using r f deref_sentinel_returns_value[OF r]
    by (simp add: end_it_def)
qed

text \<open>
  C3. \<^verbatim>\<open>main\<close>: the list is built from \<^verbatim>\<open>"data1!"\<close>, \<^verbatim>\<open>"data2!"\<close>,
  \<^verbatim>\<open>"data3!"\<close>; the forward loop erases the element equal to \<^verbatim>\<open>"data1!"\<close> when
  it visits it. The loop visits the three elements in order, each at its own node;
  afterwards the forward loop reads \<^verbatim>\<open>"data2!"\<close>, \<^verbatim>\<open>"data3!"\<close> and the reverse
  loop \<^verbatim>\<open>"data3!"\<close>, \<^verbatim>\<open>"data2!"\<close>. The cursor that stood on the erased node
  still advances to the node of \<^verbatim>\<open>"data2!"\<close>, and the cells of the erased node are
  those it had, with the contents they had.
\<close>

theorem main_scenario:
  "\<exists>s0 s1 tr.
     MutableList_init '''' [''data1!'', ''data2!'', ''data3!''] = Inr s0 \<and>
     erase_loop (\<lambda>v. v = ''data1!'') s0 = Some (Inr (s1, tr)) \<and>
     map snd tr = [''data1!'', ''data2!'', ''data3!''] \<and>
     distinct (map fst tr) \<and>
     values_of (for_each s1) = Some [''data2!'', ''data3!''] \<and>
     values_of (reverse_for_each s1) = Some [''data3!'', ''data2!''] \<and>
     operator_incr s1 (fst (tr ! 0)) = Inr (fst (tr ! 1)) \<and>
     nodes s1 = nodes s0 \<and>
     refs s1 ! 6 = refs s0 ! 6 \<and> refs s1 ! 3 = refs s0 ! 3 \<and>
     size_of s1 = 2"
proof -
  let ?s0 = "\<lparr>nodes = [\<lparr>next = Some 2, prev = None, val = ''''\<rparr>,
                \<lparr>next = None, prev = Some 13, val = ''''\<rparr>,
                \<lparr>next = Some 6, prev = Some 3, val = ''data1!''\<rparr>,
                \<lparr>next = Some 10, prev = Some 7, val = ''data2!''\<rparr>,
                \<lparr>next = Some 12, prev = Some 11, val = ''data3!''\<rparr>],
        refs = [Some 1, Some 0, Some 2, Some 0, Some 1, Some 2, Some 3, Some 2, Some 1, Some 3,
                Some 4, Some 3, Some 1, Some 4],
        m_head = Some 0, m_tail = Some 1, m_size = 3\<rparr>"
  let ?s1 = "\<lparr>nodes = [\<lparr>next = Some 2, prev = None, val = ''''\<rparr>,
                \<lparr>next = None, prev = Some 13, val = ''''\<rparr>,
                \<lparr>next = Some 6, prev = Some 3, val = ''data1!''\<rparr>,
                \<lparr>next = Some 10, prev = Some 7, val = ''data2!''\<rparr>,
                \<lparr>next = Some 12, prev = Some 11, val = ''data3!''\<rparr>],
        refs = [Some 1, Some 0, Some 3, Some 0, Some 1, Some 2, Some 3, Some 0, Some 1, Some 3,
                Some 4, Some 3, Some 1, Some 4],
        m_head = Some 0, m_tail = Some 1, m_size = 2\<rparr>"
  have a: "MutableList_init '''' [''data1!'', ''data2!'', ''data3!''] = Inr ?s0"
    by code_simp
  have b: "erase_loop (\<lambda>v. v = ''data1!'') ?s0 =
             Some (Inr (?s1, [(Some 2, ''data1!''), (Some 3, ''data2!''), (Some 4, ''data3!'')]))"
    by code_simp
  have c: "values_of (for_each ?s1) = Some [''data2!'', ''data3!'']"
    by code_simp
  have d: "values_of (reverse_for_each ?s1) = Some [''data3!'', ''data2!'']"
    by code_simp
  show ?thesis
    apply (rule exI[of _ ?s0])
    apply (rule exI[of _ ?s1])
    apply (rule exI[of _ "[(Some 2, ''data1!''), (Some 3, ''data2!''), (Some 4, ''data3!'')]"])
    apply (simp only: a b c d)
    apply (simp add: size_of_def operator_incr_def next_ptr_def node_at_def ref_at_def)
    done
qed

subsection \<open>Erasing an attached node\<close>

lemma chain_inv_split:
  assumes "chain_inv s h ns t" and "attached s pos"
  shows "\<exists>x xs ys. pos = Some x \<and> ns = xs @ x # ys \<and> chain_inv s h (xs @ x # ys) t"
proof -
  obtain x where x: "pos = Some x" "x \<in> set ns"
    using assms chain_inv_attached[OF assms(1)] by auto
  then obtain xs ys where ns: "ns = xs @ x # ys" by (meson split_list)
  have "pos = Some x \<and> ns = xs @ x # ys \<and> chain_inv s h (xs @ x # ys) t"
    using x(1) ns assms(1) by simp
  then show ?thesis by (intro exI)
qed

text \<open>
  C2. \<^verbatim>\<open>erase\<close> on the position of an attached ordinary node \<open>x\<close>, with
  predecessor \<open>p\<close> and successor \<open>q\<close>: the store afterwards is the store before
  with two cells overwritten, the forward cell of \<open>p\<close> now holding \<open>q\<close> and the
  backward cell of \<open>q\<close> now holding \<open>p\<close>, and with \<^verbatim>\<open>size_\<close> one less. No node
  is given another cell. The two cells of \<open>x\<close> are neither of the cells written, so
  they still hold \<open>q\<close> and \<open>p\<close>. The returned iterator stands at \<open>q\<close>.
  \<^verbatim>\<open>erase_node\<close> leaves the same store.
\<close>

theorem erase_two_writes:
  assumes "reachable s" and "attached s pos"
  shows "\<exists>x p q cp cs s'.
           pos = Some x \<and>
           operator_decr s pos = Inr (Some p) \<and> operator_incr s pos = Inr (Some q) \<and>
           nextc s p = Some cp \<and> prevc s q = Some cs \<and> cp \<noteq> cs \<and>
           erase s pos = Inr (s', Some q) \<and> erase_node s pos = Inr s' \<and>
           s' = s\<lparr>refs := (refs s)[cp := Some q, cs := Some p], m_size := m_size s - 1\<rparr> \<and>
           operator_incr s' (Some p) = Inr (Some q) \<and> operator_decr s' (Some q) = Inr (Some p) \<and>
           (\<forall>c. nextc s x = Some c \<or> prevc s x = Some c \<longrightarrow> c \<noteq> cp \<and> c \<noteq> cs) \<and>
           operator_incr s' pos = Inr (Some q) \<and> operator_decr s' pos = Inr (Some p) \<and>
           size_of s' = size_of s - 1"
proof -
  obtain h ns t where inv: "chain_inv s h ns t"
    using reachable_chain[OF assms(1)] by blast
  obtain x xs ys where x: "pos = Some x" and inv': "chain_inv s h (xs @ x # ys) t"
    using chain_inv_split[OF inv assms(2)] by (elim exE conjE)
  define p where "p = last (h # xs)"
  define q where "q = hd (ys @ [t])"
  obtain cp cs s1 where f:
    "nextc s p = Some cp" "prevc s q = Some cs" "cp \<noteq> cs"
    "s1 = s\<lparr>refs := (refs s)[cp := Some q, cs := Some p], m_size := m_size s - 1\<rparr>"
    "operator_decr s (Some x) = Inr (Some p)" "operator_incr s (Some x) = Inr (Some q)"
    "erase s (Some x) = Inr (s1, Some q)" "erase_node s (Some x) = Inr s1"
    "operator_decr s1 (Some x) = Inr (Some p)" "operator_incr s1 (Some x) = Inr (Some q)"
    "operator_incr s1 (Some p) = Inr (Some q)" "operator_decr s1 (Some q) = Inr (Some p)"
    "\<forall>c. nextc s x = Some c \<or> prevc s x = Some c \<longrightarrow> c \<noteq> cp \<and> c \<noteq> cs"
    using erase_chain[OF inv'] unfolding p_def q_def by blast
  have sz: "size_of s1 = size_of s - 1" unfolding f(4) by (simp add: size_of_def)
  show ?thesis
    apply (rule exI[of _ x], rule exI[of _ p], rule exI[of _ q])
    apply (rule exI[of _ cp], rule exI[of _ cs], rule exI[of _ s1])
    apply (intro conjI)
    using x f sz by simp_all
qed

theorem erase_two_writes_witness:
  "reachable \<lparr>nodes = [\<lparr>next = Some 2, prev = None, val = ''''\<rparr>,
                \<lparr>next = None, prev = Some 9, val = ''''\<rparr>,
                \<lparr>next = Some 6, prev = Some 3, val = ''a''\<rparr>,
                \<lparr>next = Some 8, prev = Some 7, val = ''b''\<rparr>],
        refs = [Some 1, Some 0, Some 2, Some 0, Some 1, Some 2, Some 3, Some 2, Some 1, Some 3],
        m_head = Some 0, m_tail = Some 1, m_size = 2\<rparr> \<and>
   attached \<lparr>nodes = [\<lparr>next = Some 2, prev = None, val = ''''\<rparr>,
                \<lparr>next = None, prev = Some 9, val = ''''\<rparr>,
                \<lparr>next = Some 6, prev = Some 3, val = ''a''\<rparr>,
                \<lparr>next = Some 8, prev = Some 7, val = ''b''\<rparr>],
        refs = [Some 1, Some 0, Some 2, Some 0, Some 1, Some 2, Some 3, Some 2, Some 1, Some 3],
        m_head = Some 0, m_tail = Some 1, m_size = 2\<rparr> (Some 2) \<and>
   erase \<lparr>nodes = [\<lparr>next = Some 2, prev = None, val = ''''\<rparr>,
                \<lparr>next = None, prev = Some 9, val = ''''\<rparr>,
                \<lparr>next = Some 6, prev = Some 3, val = ''a''\<rparr>,
                \<lparr>next = Some 8, prev = Some 7, val = ''b''\<rparr>],
        refs = [Some 1, Some 0, Some 2, Some 0, Some 1, Some 2, Some 3, Some 2, Some 1, Some 3],
        m_head = Some 0, m_tail = Some 1, m_size = 2\<rparr> (Some 2) =
     Inr (\<lparr>nodes = [\<lparr>next = Some 2, prev = None, val = ''''\<rparr>,
                \<lparr>next = None, prev = Some 9, val = ''''\<rparr>,
                \<lparr>next = Some 6, prev = Some 3, val = ''a''\<rparr>,
                \<lparr>next = Some 8, prev = Some 7, val = ''b''\<rparr>],
        refs = [Some 1, Some 0, Some 3, Some 0, Some 1, Some 2, Some 3, Some 0, Some 1, Some 3],
        m_head = Some 0, m_tail = Some 1, m_size = 1\<rparr>, Some 3) \<and>
   operator_incr \<lparr>nodes = [\<lparr>next = Some 2, prev = None, val = ''''\<rparr>,
                \<lparr>next = None, prev = Some 9, val = ''''\<rparr>,
                \<lparr>next = Some 6, prev = Some 3, val = ''a''\<rparr>,
                \<lparr>next = Some 8, prev = Some 7, val = ''b''\<rparr>],
        refs = [Some 1, Some 0, Some 3, Some 0, Some 1, Some 2, Some 3, Some 0, Some 1, Some 3],
        m_head = Some 0, m_tail = Some 1, m_size = 1\<rparr> (Some 2) = Inr (Some 3) \<and>
   operator_decr \<lparr>nodes = [\<lparr>next = Some 2, prev = None, val = ''''\<rparr>,
                \<lparr>next = None, prev = Some 9, val = ''''\<rparr>,
                \<lparr>next = Some 6, prev = Some 3, val = ''a''\<rparr>,
                \<lparr>next = Some 8, prev = Some 7, val = ''b''\<rparr>],
        refs = [Some 1, Some 0, Some 3, Some 0, Some 1, Some 2, Some 3, Some 0, Some 1, Some 3],
        m_head = Some 0, m_tail = Some 1, m_size = 1\<rparr> (Some 2) = Inr (Some 0)"
proof -
  have r: "reachable \<lparr>nodes = [\<lparr>next = Some 2, prev = None, val = ''''\<rparr>,
                \<lparr>next = None, prev = Some 9, val = ''''\<rparr>,
                \<lparr>next = Some 6, prev = Some 3, val = ''a''\<rparr>,
                \<lparr>next = Some 8, prev = Some 7, val = ''b''\<rparr>],
        refs = [Some 1, Some 0, Some 2, Some 0, Some 1, Some 2, Some 3, Some 2, Some 1, Some 3],
        m_head = Some 0, m_tail = Some 1, m_size = 2\<rparr>"
    by (rule reachable_init[OF init_two])
  have a: "attached \<lparr>nodes = [\<lparr>next = Some 2, prev = None, val = ''''\<rparr>,
                \<lparr>next = None, prev = Some 9, val = ''''\<rparr>,
                \<lparr>next = Some 6, prev = Some 3, val = ''a''\<rparr>,
                \<lparr>next = Some 8, prev = Some 7, val = ''b''\<rparr>],
        refs = [Some 1, Some 0, Some 2, Some 0, Some 1, Some 2, Some 3, Some 2, Some 1, Some 3],
        m_head = Some 0, m_tail = Some 1, m_size = 2\<rparr> (Some 2)"
    by code_simp
  have e: "erase \<lparr>nodes = [\<lparr>next = Some 2, prev = None, val = ''''\<rparr>,
                \<lparr>next = None, prev = Some 9, val = ''''\<rparr>,
                \<lparr>next = Some 6, prev = Some 3, val = ''a''\<rparr>,
                \<lparr>next = Some 8, prev = Some 7, val = ''b''\<rparr>],
        refs = [Some 1, Some 0, Some 2, Some 0, Some 1, Some 2, Some 3, Some 2, Some 1, Some 3],
        m_head = Some 0, m_tail = Some 1, m_size = 2\<rparr> (Some 2) =
     Inr (\<lparr>nodes = [\<lparr>next = Some 2, prev = None, val = ''''\<rparr>,
                \<lparr>next = None, prev = Some 9, val = ''''\<rparr>,
                \<lparr>next = Some 6, prev = Some 3, val = ''a''\<rparr>,
                \<lparr>next = Some 8, prev = Some 7, val = ''b''\<rparr>],
        refs = [Some 1, Some 0, Some 3, Some 0, Some 1, Some 2, Some 3, Some 0, Some 1, Some 3],
        m_head = Some 0, m_tail = Some 1, m_size = 1\<rparr>, Some 3)"
    by code_simp
  have i: "operator_incr \<lparr>nodes = [\<lparr>next = Some 2, prev = None, val = ''''\<rparr>,
                \<lparr>next = None, prev = Some 9, val = ''''\<rparr>,
                \<lparr>next = Some 6, prev = Some 3, val = ''a''\<rparr>,
                \<lparr>next = Some 8, prev = Some 7, val = ''b''\<rparr>],
        refs = [Some 1, Some 0, Some 2, Some 0, Some 1, Some 2, Some 3, Some 2, Some 1, Some 3],
        m_head = Some 0, m_tail = Some 1, m_size = 2\<rparr> (Some 2) = Inr (Some 3)" "operator_decr \<lparr>nodes = [\<lparr>next = Some 2, prev = None, val = ''''\<rparr>,
                \<lparr>next = None, prev = Some 9, val = ''''\<rparr>,
                \<lparr>next = Some 6, prev = Some 3, val = ''a''\<rparr>,
                \<lparr>next = Some 8, prev = Some 7, val = ''b''\<rparr>],
        refs = [Some 1, Some 0, Some 2, Some 0, Some 1, Some 2, Some 3, Some 2, Some 1, Some 3],
        m_head = Some 0, m_tail = Some 1, m_size = 2\<rparr> (Some 2) = Inr (Some 0)"
    by code_simp+
  from erase_two_writes[OF r a] obtain x p q s' where
    "Some 2 = Some x"
    "operator_decr \<lparr>nodes = [\<lparr>next = Some 2, prev = None, val = ''''\<rparr>,
                \<lparr>next = None, prev = Some 9, val = ''''\<rparr>,
                \<lparr>next = Some 6, prev = Some 3, val = ''a''\<rparr>,
                \<lparr>next = Some 8, prev = Some 7, val = ''b''\<rparr>],
        refs = [Some 1, Some 0, Some 2, Some 0, Some 1, Some 2, Some 3, Some 2, Some 1, Some 3],
        m_head = Some 0, m_tail = Some 1, m_size = 2\<rparr> (Some 2) = Inr (Some p)"
    "operator_incr \<lparr>nodes = [\<lparr>next = Some 2, prev = None, val = ''''\<rparr>,
                \<lparr>next = None, prev = Some 9, val = ''''\<rparr>,
                \<lparr>next = Some 6, prev = Some 3, val = ''a''\<rparr>,
                \<lparr>next = Some 8, prev = Some 7, val = ''b''\<rparr>],
        refs = [Some 1, Some 0, Some 2, Some 0, Some 1, Some 2, Some 3, Some 2, Some 1, Some 3],
        m_head = Some 0, m_tail = Some 1, m_size = 2\<rparr> (Some 2) = Inr (Some q)"
    "erase \<lparr>nodes = [\<lparr>next = Some 2, prev = None, val = ''''\<rparr>,
                \<lparr>next = None, prev = Some 9, val = ''''\<rparr>,
                \<lparr>next = Some 6, prev = Some 3, val = ''a''\<rparr>,
                \<lparr>next = Some 8, prev = Some 7, val = ''b''\<rparr>],
        refs = [Some 1, Some 0, Some 2, Some 0, Some 1, Some 2, Some 3, Some 2, Some 1, Some 3],
        m_head = Some 0, m_tail = Some 1, m_size = 2\<rparr> (Some 2) = Inr (s', Some q)"
    "operator_incr s' (Some 2) = Inr (Some q)" "operator_decr s' (Some 2) = Inr (Some p)"
    by blast
  then show ?thesis using r a e i by simp
qed

text \<open>
  C4. A second cursor is parked on the chain (at the head sentinel or at an attached
  node) immediately before the node at \<open>pos\<close>: its \<^verbatim>\<open>++\<close> leads to \<open>pos\<close>. After
  \<^verbatim>\<open>erase(pos)\<close>, which returns the former successor \<open>r\<close> of the erased node, the
  \<^verbatim>\<open>++\<close> of the parked cursor leads to \<open>r\<close>, and the forward loop from \<open>r\<close> to the
  end of the list ends without ever standing at \<open>pos\<close>.
\<close>

theorem parked_cursor_skips_erased:
  assumes "reachable s" and "attached s pos"
    and "parked = m_head s \<or> attached s parked"
    and "operator_incr s parked = Inr pos"
    and "erase s pos = Inr (s', r)"
  shows "operator_incr s pos = Inr r \<and> operator_incr s' parked = Inr r \<and>
         (\<exists>tr. for_each_from s' r [] = Some (Inr tr) \<and> pos \<notin> set (map fst tr))"
proof -
  obtain h ns t where inv: "chain_inv s h ns t"
    using reachable_chain[OF assms(1)] by blast
  obtain x xs ys where x: "pos = Some x" and ns: "ns = xs @ x # ys"
    and inv': "chain_inv s h (xs @ x # ys) t"
    using chain_inv_split[OF inv assms(2)] by (elim exE conjE)
  define p where "p = last (h # xs)"
  define q where "q = hd (ys @ [t])"
  obtain s1 where e: "erase s (Some x) = Inr (s1, Some q)"
    and d0: "operator_decr s (Some x) = Inr (Some p)"
    and i0: "operator_incr s (Some x) = Inr (Some q)"
    and inv1: "chain_inv s1 h (xs @ ys) t"
    and i1: "operator_incr s1 (Some p) = Inr (Some q)"
    using erase_chain[OF inv'] unfolding p_def q_def by blast
  have s': "s' = s1" "r = Some q" using e assms(5) x by simp_all
  obtain a where a: "parked = Some a" "a \<in> set (h # ns)"
    using assms(3) inv chain_inv_attached[OF inv] by (auto simp: chain_inv_def)
  have "chainp s (h # ns @ [t])" using inv by (simp add: chain_inv_def)
  moreover have "a \<in> set (butlast (h # ns @ [t]))" using a(2) by (simp add: butlast_append)
  ultimately obtain b where b: "linked s a b" using chainp_succ by blast
  then have "operator_incr s (Some a) = Inr (Some b)" by (simp add: linked_reads)
  then have "b = x" using assms(4) a(1) x by simp
  then have "operator_decr s (Some x) = Inr (Some a)" using b by (simp add: linked_reads)
  then have ap: "a = p" using d0 by simp
  have "chainp s1 ((h # xs) @ (ys @ [t]))" "distinct ((h # xs) @ x # (ys @ [t]))"
    "m_tail s1 = Some t"
    using inv1 inv' by (simp_all add: chain_inv_def)
  then have c: "chainp s1 (ys @ [t])" and nx: "x \<notin> set ys" and nt: "t \<notin> set ys"
    using chainp_append2[of "h # xs" "ys @ [t]" s1] by auto
  have "for_each_from s1 (Some (hd (ys @ [t]))) [] =
          Some (Inr (rev [] @ map (\<lambda>a. (Some a, val (nodes s1 ! a))) ys))"
    by (rule for_each_from_chain[OF \<open>m_tail s1 = Some t\<close> c nt])
  then have "\<exists>tr. for_each_from s' r [] = Some (Inr tr) \<and> pos \<notin> set (map fst tr)"
    using nx unfolding s' q_def x by (auto simp: image_iff)
  then show ?thesis using i0 i1 x s' a(1) ap by simp
qed

theorem parked_cursor_skips_erased_witness:
  "reachable \<lparr>nodes = [\<lparr>next = Some 2, prev = None, val = ''''\<rparr>,
                \<lparr>next = None, prev = Some 9, val = ''''\<rparr>,
                \<lparr>next = Some 6, prev = Some 3, val = ''a''\<rparr>,
                \<lparr>next = Some 8, prev = Some 7, val = ''b''\<rparr>],
        refs = [Some 1, Some 0, Some 2, Some 0, Some 1, Some 2, Some 3, Some 2, Some 1, Some 3],
        m_head = Some 0, m_tail = Some 1, m_size = 2\<rparr> \<and>
   attached \<lparr>nodes = [\<lparr>next = Some 2, prev = None, val = ''''\<rparr>,
                \<lparr>next = None, prev = Some 9, val = ''''\<rparr>,
                \<lparr>next = Some 6, prev = Some 3, val = ''a''\<rparr>,
                \<lparr>next = Some 8, prev = Some 7, val = ''b''\<rparr>],
        refs = [Some 1, Some 0, Some 2, Some 0, Some 1, Some 2, Some 3, Some 2, Some 1, Some 3],
        m_head = Some 0, m_tail = Some 1, m_size = 2\<rparr> (Some 3) \<and> attached \<lparr>nodes = [\<lparr>next = Some 2, prev = None, val = ''''\<rparr>,
                \<lparr>next = None, prev = Some 9, val = ''''\<rparr>,
                \<lparr>next = Some 6, prev = Some 3, val = ''a''\<rparr>,
                \<lparr>next = Some 8, prev = Some 7, val = ''b''\<rparr>],
        refs = [Some 1, Some 0, Some 2, Some 0, Some 1, Some 2, Some 3, Some 2, Some 1, Some 3],
        m_head = Some 0, m_tail = Some 1, m_size = 2\<rparr> (Some 2) \<and>
   operator_incr \<lparr>nodes = [\<lparr>next = Some 2, prev = None, val = ''''\<rparr>,
                \<lparr>next = None, prev = Some 9, val = ''''\<rparr>,
                \<lparr>next = Some 6, prev = Some 3, val = ''a''\<rparr>,
                \<lparr>next = Some 8, prev = Some 7, val = ''b''\<rparr>],
        refs = [Some 1, Some 0, Some 2, Some 0, Some 1, Some 2, Some 3, Some 2, Some 1, Some 3],
        m_head = Some 0, m_tail = Some 1, m_size = 2\<rparr> (Some 2) = Inr (Some 3) \<and>
   erase \<lparr>nodes = [\<lparr>next = Some 2, prev = None, val = ''''\<rparr>,
                \<lparr>next = None, prev = Some 9, val = ''''\<rparr>,
                \<lparr>next = Some 6, prev = Some 3, val = ''a''\<rparr>,
                \<lparr>next = Some 8, prev = Some 7, val = ''b''\<rparr>],
        refs = [Some 1, Some 0, Some 2, Some 0, Some 1, Some 2, Some 3, Some 2, Some 1, Some 3],
        m_head = Some 0, m_tail = Some 1, m_size = 2\<rparr> (Some 3) =
     Inr (\<lparr>nodes = [\<lparr>next = Some 2, prev = None, val = ''''\<rparr>,
                \<lparr>next = None, prev = Some 9, val = ''''\<rparr>,
                \<lparr>next = Some 6, prev = Some 3, val = ''a''\<rparr>,
                \<lparr>next = Some 8, prev = Some 7, val = ''b''\<rparr>],
        refs = [Some 1, Some 0, Some 2, Some 0, Some 1, Some 2, Some 1, Some 2, Some 1, Some 2],
        m_head = Some 0, m_tail = Some 1, m_size = 1\<rparr>, Some 1) \<and>
   operator_incr \<lparr>nodes = [\<lparr>next = Some 2, prev = None, val = ''''\<rparr>,
                \<lparr>next = None, prev = Some 9, val = ''''\<rparr>,
                \<lparr>next = Some 6, prev = Some 3, val = ''a''\<rparr>,
                \<lparr>next = Some 8, prev = Some 7, val = ''b''\<rparr>],
        refs = [Some 1, Some 0, Some 2, Some 0, Some 1, Some 2, Some 1, Some 2, Some 1, Some 2],
        m_head = Some 0, m_tail = Some 1, m_size = 1\<rparr> (Some 2) = Inr (Some 1) \<and>
   (\<exists>tr. for_each_from \<lparr>nodes = [\<lparr>next = Some 2, prev = None, val = ''''\<rparr>,
                \<lparr>next = None, prev = Some 9, val = ''''\<rparr>,
                \<lparr>next = Some 6, prev = Some 3, val = ''a''\<rparr>,
                \<lparr>next = Some 8, prev = Some 7, val = ''b''\<rparr>],
        refs = [Some 1, Some 0, Some 2, Some 0, Some 1, Some 2, Some 1, Some 2, Some 1, Some 2],
        m_head = Some 0, m_tail = Some 1, m_size = 1\<rparr> (Some 1) [] = Some (Inr tr) \<and> Some 3 \<notin> set (map fst tr))"
proof -
  have r: "reachable \<lparr>nodes = [\<lparr>next = Some 2, prev = None, val = ''''\<rparr>,
                \<lparr>next = None, prev = Some 9, val = ''''\<rparr>,
                \<lparr>next = Some 6, prev = Some 3, val = ''a''\<rparr>,
                \<lparr>next = Some 8, prev = Some 7, val = ''b''\<rparr>],
        refs = [Some 1, Some 0, Some 2, Some 0, Some 1, Some 2, Some 3, Some 2, Some 1, Some 3],
        m_head = Some 0, m_tail = Some 1, m_size = 2\<rparr>"
    by (rule reachable_init[OF init_two])
  have a: "attached \<lparr>nodes = [\<lparr>next = Some 2, prev = None, val = ''''\<rparr>,
                \<lparr>next = None, prev = Some 9, val = ''''\<rparr>,
                \<lparr>next = Some 6, prev = Some 3, val = ''a''\<rparr>,
                \<lparr>next = Some 8, prev = Some 7, val = ''b''\<rparr>],
        refs = [Some 1, Some 0, Some 2, Some 0, Some 1, Some 2, Some 3, Some 2, Some 1, Some 3],
        m_head = Some 0, m_tail = Some 1, m_size = 2\<rparr> (Some 3)" "attached \<lparr>nodes = [\<lparr>next = Some 2, prev = None, val = ''''\<rparr>,
                \<lparr>next = None, prev = Some 9, val = ''''\<rparr>,
                \<lparr>next = Some 6, prev = Some 3, val = ''a''\<rparr>,
                \<lparr>next = Some 8, prev = Some 7, val = ''b''\<rparr>],
        refs = [Some 1, Some 0, Some 2, Some 0, Some 1, Some 2, Some 3, Some 2, Some 1, Some 3],
        m_head = Some 0, m_tail = Some 1, m_size = 2\<rparr> (Some 2)"
    by code_simp+
  have i: "operator_incr \<lparr>nodes = [\<lparr>next = Some 2, prev = None, val = ''''\<rparr>,
                \<lparr>next = None, prev = Some 9, val = ''''\<rparr>,
                \<lparr>next = Some 6, prev = Some 3, val = ''a''\<rparr>,
                \<lparr>next = Some 8, prev = Some 7, val = ''b''\<rparr>],
        refs = [Some 1, Some 0, Some 2, Some 0, Some 1, Some 2, Some 3, Some 2, Some 1, Some 3],
        m_head = Some 0, m_tail = Some 1, m_size = 2\<rparr> (Some 2) = Inr (Some 3)"
    by code_simp
  have e: "erase \<lparr>nodes = [\<lparr>next = Some 2, prev = None, val = ''''\<rparr>,
                \<lparr>next = None, prev = Some 9, val = ''''\<rparr>,
                \<lparr>next = Some 6, prev = Some 3, val = ''a''\<rparr>,
                \<lparr>next = Some 8, prev = Some 7, val = ''b''\<rparr>],
        refs = [Some 1, Some 0, Some 2, Some 0, Some 1, Some 2, Some 3, Some 2, Some 1, Some 3],
        m_head = Some 0, m_tail = Some 1, m_size = 2\<rparr> (Some 3) =
     Inr (\<lparr>nodes = [\<lparr>next = Some 2, prev = None, val = ''''\<rparr>,
                \<lparr>next = None, prev = Some 9, val = ''''\<rparr>,
                \<lparr>next = Some 6, prev = Some 3, val = ''a''\<rparr>,
                \<lparr>next = Some 8, prev = Some 7, val = ''b''\<rparr>],
        refs = [Some 1, Some 0, Some 2, Some 0, Some 1, Some 2, Some 1, Some 2, Some 1, Some 2],
        m_head = Some 0, m_tail = Some 1, m_size = 1\<rparr>, Some 1)"
    by code_simp
  from parked_cursor_skips_erased[OF r a(1) disjI2[OF a(2)] i e]
  show ?thesis using r a i e by blast
qed

subsection \<open>Size, round trip, deleting everything, insertion\<close>

lemma distinct_bounded_length:
  assumes "distinct xs" and "\<forall>x\<in>set xs. x < n"
  shows "length xs \<le> (n::nat)"
proof -
  have "set xs \<subseteq> {..<n}" using assms(2) by auto
  then have "card (set xs) \<le> card {..<n}" by (intro card_mono) simp_all
  then show ?thesis using assms(1) by (simp add: distinct_card)
qed

lemma chain_inv_length:
  assumes "chain_inv s h ns t"
  shows "length ns < length (nodes s)"
proof -
  have c: "chainp s (h # ns @ [t])" and d: "distinct (h # ns @ [t])"
    using assms by (simp_all add: chain_inv_def)
  have "\<forall>x\<in>set (h # ns @ [t]). x < length (nodes s)"
    using chainp_bounds[OF c] by simp
  from distinct_bounded_length[OF d this] show ?thesis by simp
qed

text \<open>
  C5. On every reachable list the forward loop from \<^verbatim>\<open>begin()\<close> to the tail
  sentinel and the backward walk from the last node to the head sentinel both end, and
  visit the same number of nodes; \<^verbatim>\<open>size()\<close> is that number as a 64-bit
  \<^verbatim>\<open>size_t\<close>. It is that number itself as long as the store holds fewer than
  \<open>2^64\<close> nodes, which the address space of the machine guarantees.
\<close>

theorem size_counts_chain:
  assumes "reachable s"
  shows "\<exists>tr tr'. for_each s = Some (Inr tr) \<and> retreat s = Some (Inr tr') \<and>
           length tr' = length tr \<and> size_of s = of_nat (length tr) \<and>
           (length (nodes s) < 2 ^ 64 \<longrightarrow>
              unat (size_of s) = length tr \<and> unat (size_of s) = length tr')"
proof -
  obtain h ns t where inv: "chain_inv s h ns t"
    using reachable_chain[OF assms(1)] by blast
  let ?g = "\<lambda>a. (Some a, val (nodes s ! a))"
  have sz: "size_of s = of_nat (length ns)"
    using inv by (simp add: chain_inv_def size_of_def)
  have "unat (size_of s) = length ns" if "length (nodes s) < 2 ^ 64"
  proof -
    have "length ns < 2 ^ 64" using chain_inv_length[OF inv] that by simp
    then show ?thesis unfolding sz by (simp add: unat_of_nat)
  qed
  then have "for_each s = Some (Inr (map ?g ns)) \<and> retreat s = Some (Inr (map ?g (rev ns))) \<and>
           length (map ?g (rev ns)) = length (map ?g ns) \<and>
           size_of s = of_nat (length (map ?g ns)) \<and>
           (length (nodes s) < 2 ^ 64 \<longrightarrow>
              unat (size_of s) = length (map ?g ns) \<and>
              unat (size_of s) = length (map ?g (rev ns)))"
    using chain_inv_for_each[OF inv] chain_inv_retreat[OF inv] sz by simp
  then show ?thesis by (intro exI)
qed

theorem size_counts_chain_witness:
  "reachable \<lparr>nodes = [\<lparr>next = Some 2, prev = None, val = ''''\<rparr>,
                \<lparr>next = None, prev = Some 9, val = ''''\<rparr>,
                \<lparr>next = Some 6, prev = Some 3, val = ''a''\<rparr>,
                \<lparr>next = Some 8, prev = Some 7, val = ''b''\<rparr>],
        refs = [Some 1, Some 0, Some 2, Some 0, Some 1, Some 2, Some 3, Some 2, Some 1, Some 3],
        m_head = Some 0, m_tail = Some 1, m_size = 2\<rparr> \<and>
   length (nodes \<lparr>nodes = [\<lparr>next = Some 2, prev = None, val = ''''\<rparr>,
                \<lparr>next = None, prev = Some 9, val = ''''\<rparr>,
                \<lparr>next = Some 6, prev = Some 3, val = ''a''\<rparr>,
                \<lparr>next = Some 8, prev = Some 7, val = ''b''\<rparr>],
        refs = [Some 1, Some 0, Some 2, Some 0, Some 1, Some 2, Some 3, Some 2, Some 1, Some 3],
        m_head = Some 0, m_tail = Some 1, m_size = 2\<rparr>) < 2 ^ 64 \<and>
   for_each \<lparr>nodes = [\<lparr>next = Some 2, prev = None, val = ''''\<rparr>,
                \<lparr>next = None, prev = Some 9, val = ''''\<rparr>,
                \<lparr>next = Some 6, prev = Some 3, val = ''a''\<rparr>,
                \<lparr>next = Some 8, prev = Some 7, val = ''b''\<rparr>],
        refs = [Some 1, Some 0, Some 2, Some 0, Some 1, Some 2, Some 3, Some 2, Some 1, Some 3],
        m_head = Some 0, m_tail = Some 1, m_size = 2\<rparr> = Some (Inr [(Some 2, ''a''), (Some 3, ''b'')]) \<and>
   retreat \<lparr>nodes = [\<lparr>next = Some 2, prev = None, val = ''''\<rparr>,
                \<lparr>next = None, prev = Some 9, val = ''''\<rparr>,
                \<lparr>next = Some 6, prev = Some 3, val = ''a''\<rparr>,
                \<lparr>next = Some 8, prev = Some 7, val = ''b''\<rparr>],
        refs = [Some 1, Some 0, Some 2, Some 0, Some 1, Some 2, Some 3, Some 2, Some 1, Some 3],
        m_head = Some 0, m_tail = Some 1, m_size = 2\<rparr> = Some (Inr [(Some 3, ''b''), (Some 2, ''a'')]) \<and>
   unat (size_of \<lparr>nodes = [\<lparr>next = Some 2, prev = None, val = ''''\<rparr>,
                \<lparr>next = None, prev = Some 9, val = ''''\<rparr>,
                \<lparr>next = Some 6, prev = Some 3, val = ''a''\<rparr>,
                \<lparr>next = Some 8, prev = Some 7, val = ''b''\<rparr>],
        refs = [Some 1, Some 0, Some 2, Some 0, Some 1, Some 2, Some 3, Some 2, Some 1, Some 3],
        m_head = Some 0, m_tail = Some 1, m_size = 2\<rparr>) = 2"
proof -
  have r: "reachable \<lparr>nodes = [\<lparr>next = Some 2, prev = None, val = ''''\<rparr>,
                \<lparr>next = None, prev = Some 9, val = ''''\<rparr>,
                \<lparr>next = Some 6, prev = Some 3, val = ''a''\<rparr>,
                \<lparr>next = Some 8, prev = Some 7, val = ''b''\<rparr>],
        refs = [Some 1, Some 0, Some 2, Some 0, Some 1, Some 2, Some 3, Some 2, Some 1, Some 3],
        m_head = Some 0, m_tail = Some 1, m_size = 2\<rparr>"
    by (rule reachable_init[OF init_two])
  have b: "length (nodes \<lparr>nodes = [\<lparr>next = Some 2, prev = None, val = ''''\<rparr>,
                \<lparr>next = None, prev = Some 9, val = ''''\<rparr>,
                \<lparr>next = Some 6, prev = Some 3, val = ''a''\<rparr>,
                \<lparr>next = Some 8, prev = Some 7, val = ''b''\<rparr>],
        refs = [Some 1, Some 0, Some 2, Some 0, Some 1, Some 2, Some 3, Some 2, Some 1, Some 3],
        m_head = Some 0, m_tail = Some 1, m_size = 2\<rparr>) < 2 ^ 64"
    by simp
  have t: "retreat \<lparr>nodes = [\<lparr>next = Some 2, prev = None, val = ''''\<rparr>,
                \<lparr>next = None, prev = Some 9, val = ''''\<rparr>,
                \<lparr>next = Some 6, prev = Some 3, val = ''a''\<rparr>,
                \<lparr>next = Some 8, prev = Some 7, val = ''b''\<rparr>],
        refs = [Some 1, Some 0, Some 2, Some 0, Some 1, Some 2, Some 3, Some 2, Some 1, Some 3],
        m_head = Some 0, m_tail = Some 1, m_size = 2\<rparr> = Some (Inr [(Some 3, ''b''), (Some 2, ''a'')])"
    by code_simp
  from size_counts_chain[OF r] obtain tr where tr:
    "for_each \<lparr>nodes = [\<lparr>next = Some 2, prev = None, val = ''''\<rparr>,
                \<lparr>next = None, prev = Some 9, val = ''''\<rparr>,
                \<lparr>next = Some 6, prev = Some 3, val = ''a''\<rparr>,
                \<lparr>next = Some 8, prev = Some 7, val = ''b''\<rparr>],
        refs = [Some 1, Some 0, Some 2, Some 0, Some 1, Some 2, Some 3, Some 2, Some 1, Some 3],
        m_head = Some 0, m_tail = Some 1, m_size = 2\<rparr> = Some (Inr tr)"
    "length (nodes \<lparr>nodes = [\<lparr>next = Some 2, prev = None, val = ''''\<rparr>,
                \<lparr>next = None, prev = Some 9, val = ''''\<rparr>,
                \<lparr>next = Some 6, prev = Some 3, val = ''a''\<rparr>,
                \<lparr>next = Some 8, prev = Some 7, val = ''b''\<rparr>],
        refs = [Some 1, Some 0, Some 2, Some 0, Some 1, Some 2, Some 3, Some 2, Some 1, Some 3],
        m_head = Some 0, m_tail = Some 1, m_size = 2\<rparr>) < 2 ^ 64 \<longrightarrow>
       unat (size_of \<lparr>nodes = [\<lparr>next = Some 2, prev = None, val = ''''\<rparr>,
                \<lparr>next = None, prev = Some 9, val = ''''\<rparr>,
                \<lparr>next = Some 6, prev = Some 3, val = ''a''\<rparr>,
                \<lparr>next = Some 8, prev = Some 7, val = ''b''\<rparr>],
        refs = [Some 1, Some 0, Some 2, Some 0, Some 1, Some 2, Some 3, Some 2, Some 1, Some 3],
        m_head = Some 0, m_tail = Some 1, m_size = 2\<rparr>) = length tr"
    by blast
  have e: "tr = [(Some 2, ''a''), (Some 3, ''b'')]"
    using tr(1) unfolding for_each_two by simp
  have "unat (size_of \<lparr>nodes = [\<lparr>next = Some 2, prev = None, val = ''''\<rparr>,
                \<lparr>next = None, prev = Some 9, val = ''''\<rparr>,
                \<lparr>next = Some 6, prev = Some 3, val = ''a''\<rparr>,
                \<lparr>next = Some 8, prev = Some 7, val = ''b''\<rparr>],
        refs = [Some 1, Some 0, Some 2, Some 0, Some 1, Some 2, Some 3, Some 2, Some 1, Some 3],
        m_head = Some 0, m_tail = Some 1, m_size = 2\<rparr>) = 2"
    using tr(2) b unfolding e by simp
  then show ?thesis using r b t for_each_two by simp
qed

text \<open>
  C6. On every reachable list the reverse loop (from \<^verbatim>\<open>rbegin()\<close> to
  \<^verbatim>\<open>rend()\<close>) and the backward walk from the last node to the head sentinel both
  yield the trace of the forward loop reversed: the same nodes with the same values,
  in the opposite order. At every node of the chain, \<^verbatim>\<open>++\<close> followed by
  \<^verbatim>\<open>--\<close> comes back to the node, and so does \<^verbatim>\<open>--\<close> followed by \<^verbatim>\<open>++\<close>.
\<close>

theorem forward_backward_round_trip:
  assumes "reachable s"
  shows "\<exists>tr. for_each s = Some (Inr tr) \<and>
           reverse_for_each s = Some (Inr (rev tr)) \<and> retreat s = Some (Inr (rev tr)) \<and>
           values_of (reverse_for_each s) = Some (rev (map snd tr)) \<and>
           (\<forall>pos \<in> set (map fst tr). \<exists>nx pv.
              operator_incr s pos = Inr nx \<and> operator_decr s nx = Inr pos \<and>
              operator_decr s pos = Inr pv \<and> operator_incr s pv = Inr pos)"
proof -
  obtain h ns t where inv: "chain_inv s h ns t"
    using reachable_chain[OF assms(1)] by blast
  let ?g = "\<lambda>a. (Some a, val (nodes s ! a))"
  have nb: "\<exists>nx pv. operator_incr s pos = Inr nx \<and> operator_decr s nx = Inr pos \<and>
              operator_decr s pos = Inr pv \<and> operator_incr s pv = Inr pos"
    if "pos \<in> set (map fst (map ?g ns))" for pos
  proof -
    have "pos \<in> Some ` set ns" using that by (auto simp: image_iff)
    then obtain x where x: "pos = Some x" "x \<in> set ns" by blast
    then obtain xs ys where "ns = xs @ x # ys" by (meson split_list)
    then have "chain_inv s h (xs @ x # ys) t" using inv by simp
    from erase_inv[OF this] have "linked s (last (h # xs)) x" "linked s x (hd (ys @ [t]))"
      by blast+
    then show ?thesis using x(1) by (simp add: linked_reads)
  qed
  have "for_each s = Some (Inr (map ?g ns)) \<and>
        reverse_for_each s = Some (Inr (rev (map ?g ns))) \<and>
        retreat s = Some (Inr (rev (map ?g ns))) \<and>
        values_of (reverse_for_each s) = Some (rev (map snd (map ?g ns))) \<and>
        (\<forall>pos \<in> set (map fst (map ?g ns)). \<exists>nx pv.
              operator_incr s pos = Inr nx \<and> operator_decr s nx = Inr pos \<and>
              operator_decr s pos = Inr pv \<and> operator_incr s pv = Inr pos)"
    using chain_inv_for_each[OF inv] chain_inv_reverse_for_each[OF inv] chain_inv_retreat[OF inv]
      nb
    by (simp add: rev_map values_of_def)
  then show ?thesis by (intro exI)
qed

theorem forward_backward_round_trip_witness:
  "reachable \<lparr>nodes = [\<lparr>next = Some 2, prev = None, val = ''''\<rparr>,
                \<lparr>next = None, prev = Some 9, val = ''''\<rparr>,
                \<lparr>next = Some 6, prev = Some 3, val = ''a''\<rparr>,
                \<lparr>next = Some 8, prev = Some 7, val = ''b''\<rparr>],
        refs = [Some 1, Some 0, Some 2, Some 0, Some 1, Some 2, Some 3, Some 2, Some 1, Some 3],
        m_head = Some 0, m_tail = Some 1, m_size = 2\<rparr> \<and>
   for_each \<lparr>nodes = [\<lparr>next = Some 2, prev = None, val = ''''\<rparr>,
                \<lparr>next = None, prev = Some 9, val = ''''\<rparr>,
                \<lparr>next = Some 6, prev = Some 3, val = ''a''\<rparr>,
                \<lparr>next = Some 8, prev = Some 7, val = ''b''\<rparr>],
        refs = [Some 1, Some 0, Some 2, Some 0, Some 1, Some 2, Some 3, Some 2, Some 1, Some 3],
        m_head = Some 0, m_tail = Some 1, m_size = 2\<rparr> = Some (Inr [(Some 2, ''a''), (Some 3, ''b'')]) \<and>
   reverse_for_each \<lparr>nodes = [\<lparr>next = Some 2, prev = None, val = ''''\<rparr>,
                \<lparr>next = None, prev = Some 9, val = ''''\<rparr>,
                \<lparr>next = Some 6, prev = Some 3, val = ''a''\<rparr>,
                \<lparr>next = Some 8, prev = Some 7, val = ''b''\<rparr>],
        refs = [Some 1, Some 0, Some 2, Some 0, Some 1, Some 2, Some 3, Some 2, Some 1, Some 3],
        m_head = Some 0, m_tail = Some 1, m_size = 2\<rparr> = Some (Inr [(Some 3, ''b''), (Some 2, ''a'')]) \<and>
   retreat \<lparr>nodes = [\<lparr>next = Some 2, prev = None, val = ''''\<rparr>,
                \<lparr>next = None, prev = Some 9, val = ''''\<rparr>,
                \<lparr>next = Some 6, prev = Some 3, val = ''a''\<rparr>,
                \<lparr>next = Some 8, prev = Some 7, val = ''b''\<rparr>],
        refs = [Some 1, Some 0, Some 2, Some 0, Some 1, Some 2, Some 3, Some 2, Some 1, Some 3],
        m_head = Some 0, m_tail = Some 1, m_size = 2\<rparr> = Some (Inr [(Some 3, ''b''), (Some 2, ''a'')]) \<and>
   (\<exists>nx. operator_incr \<lparr>nodes = [\<lparr>next = Some 2, prev = None, val = ''''\<rparr>,
                \<lparr>next = None, prev = Some 9, val = ''''\<rparr>,
                \<lparr>next = Some 6, prev = Some 3, val = ''a''\<rparr>,
                \<lparr>next = Some 8, prev = Some 7, val = ''b''\<rparr>],
        refs = [Some 1, Some 0, Some 2, Some 0, Some 1, Some 2, Some 3, Some 2, Some 1, Some 3],
        m_head = Some 0, m_tail = Some 1, m_size = 2\<rparr> (Some 2) = Inr nx \<and>
         operator_decr \<lparr>nodes = [\<lparr>next = Some 2, prev = None, val = ''''\<rparr>,
                \<lparr>next = None, prev = Some 9, val = ''''\<rparr>,
                \<lparr>next = Some 6, prev = Some 3, val = ''a''\<rparr>,
                \<lparr>next = Some 8, prev = Some 7, val = ''b''\<rparr>],
        refs = [Some 1, Some 0, Some 2, Some 0, Some 1, Some 2, Some 3, Some 2, Some 1, Some 3],
        m_head = Some 0, m_tail = Some 1, m_size = 2\<rparr> nx = Inr (Some 2))"
proof -
  have r: "reachable \<lparr>nodes = [\<lparr>next = Some 2, prev = None, val = ''''\<rparr>,
                \<lparr>next = None, prev = Some 9, val = ''''\<rparr>,
                \<lparr>next = Some 6, prev = Some 3, val = ''a''\<rparr>,
                \<lparr>next = Some 8, prev = Some 7, val = ''b''\<rparr>],
        refs = [Some 1, Some 0, Some 2, Some 0, Some 1, Some 2, Some 3, Some 2, Some 1, Some 3],
        m_head = Some 0, m_tail = Some 1, m_size = 2\<rparr>"
    by (rule reachable_init[OF init_two])
  from forward_backward_round_trip[OF r] obtain tr where tr:
    "for_each \<lparr>nodes = [\<lparr>next = Some 2, prev = None, val = ''''\<rparr>,
                \<lparr>next = None, prev = Some 9, val = ''''\<rparr>,
                \<lparr>next = Some 6, prev = Some 3, val = ''a''\<rparr>,
                \<lparr>next = Some 8, prev = Some 7, val = ''b''\<rparr>],
        refs = [Some 1, Some 0, Some 2, Some 0, Some 1, Some 2, Some 3, Some 2, Some 1, Some 3],
        m_head = Some 0, m_tail = Some 1, m_size = 2\<rparr> = Some (Inr tr)"
    "reverse_for_each \<lparr>nodes = [\<lparr>next = Some 2, prev = None, val = ''''\<rparr>,
                \<lparr>next = None, prev = Some 9, val = ''''\<rparr>,
                \<lparr>next = Some 6, prev = Some 3, val = ''a''\<rparr>,
                \<lparr>next = Some 8, prev = Some 7, val = ''b''\<rparr>],
        refs = [Some 1, Some 0, Some 2, Some 0, Some 1, Some 2, Some 3, Some 2, Some 1, Some 3],
        m_head = Some 0, m_tail = Some 1, m_size = 2\<rparr> = Some (Inr (rev tr))"
    "retreat \<lparr>nodes = [\<lparr>next = Some 2, prev = None, val = ''''\<rparr>,
                \<lparr>next = None, prev = Some 9, val = ''''\<rparr>,
                \<lparr>next = Some 6, prev = Some 3, val = ''a''\<rparr>,
                \<lparr>next = Some 8, prev = Some 7, val = ''b''\<rparr>],
        refs = [Some 1, Some 0, Some 2, Some 0, Some 1, Some 2, Some 3, Some 2, Some 1, Some 3],
        m_head = Some 0, m_tail = Some 1, m_size = 2\<rparr> = Some (Inr (rev tr))"
    "\<forall>pos \<in> set (map fst tr). \<exists>nx pv.
        operator_incr \<lparr>nodes = [\<lparr>next = Some 2, prev = None, val = ''''\<rparr>,
                \<lparr>next = None, prev = Some 9, val = ''''\<rparr>,
                \<lparr>next = Some 6, prev = Some 3, val = ''a''\<rparr>,
                \<lparr>next = Some 8, prev = Some 7, val = ''b''\<rparr>],
        refs = [Some 1, Some 0, Some 2, Some 0, Some 1, Some 2, Some 3, Some 2, Some 1, Some 3],
        m_head = Some 0, m_tail = Some 1, m_size = 2\<rparr> pos = Inr nx \<and>
        operator_decr \<lparr>nodes = [\<lparr>next = Some 2, prev = None, val = ''''\<rparr>,
                \<lparr>next = None, prev = Some 9, val = ''''\<rparr>,
                \<lparr>next = Some 6, prev = Some 3, val = ''a''\<rparr>,
                \<lparr>next = Some 8, prev = Some 7, val = ''b''\<rparr>],
        refs = [Some 1, Some 0, Some 2, Some 0, Some 1, Some 2, Some 3, Some 2, Some 1, Some 3],
        m_head = Some 0, m_tail = Some 1, m_size = 2\<rparr> nx = Inr pos \<and>
        operator_decr \<lparr>nodes = [\<lparr>next = Some 2, prev = None, val = ''''\<rparr>,
                \<lparr>next = None, prev = Some 9, val = ''''\<rparr>,
                \<lparr>next = Some 6, prev = Some 3, val = ''a''\<rparr>,
                \<lparr>next = Some 8, prev = Some 7, val = ''b''\<rparr>],
        refs = [Some 1, Some 0, Some 2, Some 0, Some 1, Some 2, Some 3, Some 2, Some 1, Some 3],
        m_head = Some 0, m_tail = Some 1, m_size = 2\<rparr> pos = Inr pv \<and>
        operator_incr \<lparr>nodes = [\<lparr>next = Some 2, prev = None, val = ''''\<rparr>,
                \<lparr>next = None, prev = Some 9, val = ''''\<rparr>,
                \<lparr>next = Some 6, prev = Some 3, val = ''a''\<rparr>,
                \<lparr>next = Some 8, prev = Some 7, val = ''b''\<rparr>],
        refs = [Some 1, Some 0, Some 2, Some 0, Some 1, Some 2, Some 3, Some 2, Some 1, Some 3],
        m_head = Some 0, m_tail = Some 1, m_size = 2\<rparr> pv = Inr pos"
    by blast
  have e: "tr = [(Some 2, ''a''), (Some 3, ''b'')]"
    using tr(1) unfolding for_each_two by simp
  have "\<exists>nx. operator_incr \<lparr>nodes = [\<lparr>next = Some 2, prev = None, val = ''''\<rparr>,
                \<lparr>next = None, prev = Some 9, val = ''''\<rparr>,
                \<lparr>next = Some 6, prev = Some 3, val = ''a''\<rparr>,
                \<lparr>next = Some 8, prev = Some 7, val = ''b''\<rparr>],
        refs = [Some 1, Some 0, Some 2, Some 0, Some 1, Some 2, Some 3, Some 2, Some 1, Some 3],
        m_head = Some 0, m_tail = Some 1, m_size = 2\<rparr> (Some 2) = Inr nx \<and>
         operator_decr \<lparr>nodes = [\<lparr>next = Some 2, prev = None, val = ''''\<rparr>,
                \<lparr>next = None, prev = Some 9, val = ''''\<rparr>,
                \<lparr>next = Some 6, prev = Some 3, val = ''a''\<rparr>,
                \<lparr>next = Some 8, prev = Some 7, val = ''b''\<rparr>],
        refs = [Some 1, Some 0, Some 2, Some 0, Some 1, Some 2, Some 3, Some 2, Some 1, Some 3],
        m_head = Some 0, m_tail = Some 1, m_size = 2\<rparr> nx = Inr (Some 2)"
    using tr(4) unfolding e by fastforce
  then show ?thesis using r tr(1,2,3) unfolding e by simp
qed

text \<open>
  C7. On every reachable list, the forward loop that erases every element it visits
  ends; it has visited exactly the elements the plain forward loop visits, in the same
  order. Afterwards \<^verbatim>\<open>size()\<close> is 0, \<^verbatim>\<open>head_->next->ptr\<close> is the tail sentinel
  and \<^verbatim>\<open>tail_->prev->ptr\<close> is the head sentinel.
\<close>

theorem erase_all_while_iterating:
  assumes "reachable s"
  shows "\<exists>s' tr. erase_loop (\<lambda>v. True) s = Some (Inr (s', tr)) \<and>
           for_each s = Some (Inr tr) \<and>
           size_of s' = 0 \<and> m_head s' = m_head s \<and> m_tail s' = m_tail s \<and>
           next_ptr s' (m_head s') = Inr (m_tail s') \<and>
           prev_ptr s' (m_tail s') = Inr (m_head s') \<and>
           for_each s' = Some (Inr [])"
proof -
  obtain h ns t where inv: "chain_inv s h ns t"
    using reachable_chain[OF assms(1)] by blast
  let ?g = "\<lambda>a. (Some a, val (nodes s ! a))"
  obtain s' where l: "erase_loop (\<lambda>v. True) s = Some (Inr (s', map ?g ns))"
    and inv': "chain_inv s' h [] t"
    using chain_inv_erase_loop[OF inv, of "\<lambda>v. True"] by auto
  have ht: "m_head s = Some h" "m_tail s = Some t" "m_head s' = Some h" "m_tail s' = Some t"
    "size_of s' = 0"
    using inv inv' by (simp_all add: chain_inv_def size_of_def)
  have "linked s' h t" using chain_inv_first_linked[OF inv'] by simp
  then have lk: "next_ptr s' (Some h) = Inr (Some t)" "prev_ptr s' (Some t) = Inr (Some h)"
    by (simp_all add: linked_def)
  have "erase_loop (\<lambda>v. True) s = Some (Inr (s', map ?g ns)) \<and>
           for_each s = Some (Inr (map ?g ns)) \<and>
           size_of s' = 0 \<and> m_head s' = m_head s \<and> m_tail s' = m_tail s \<and>
           next_ptr s' (m_head s') = Inr (m_tail s') \<and>
           prev_ptr s' (m_tail s') = Inr (m_head s') \<and>
           for_each s' = Some (Inr [])"
    using l ht lk chain_inv_for_each[OF inv] chain_inv_for_each[OF inv'] by simp
  then show ?thesis by (intro exI)
qed

theorem erase_all_while_iterating_witness:
  "reachable \<lparr>nodes = [\<lparr>next = Some 2, prev = None, val = ''''\<rparr>,
                \<lparr>next = None, prev = Some 9, val = ''''\<rparr>,
                \<lparr>next = Some 6, prev = Some 3, val = ''a''\<rparr>,
                \<lparr>next = Some 8, prev = Some 7, val = ''b''\<rparr>],
        refs = [Some 1, Some 0, Some 2, Some 0, Some 1, Some 2, Some 3, Some 2, Some 1, Some 3],
        m_head = Some 0, m_tail = Some 1, m_size = 2\<rparr> \<and>
   erase_loop (\<lambda>v. True) \<lparr>nodes = [\<lparr>next = Some 2, prev = None, val = ''''\<rparr>,
                \<lparr>next = None, prev = Some 9, val = ''''\<rparr>,
                \<lparr>next = Some 6, prev = Some 3, val = ''a''\<rparr>,
                \<lparr>next = Some 8, prev = Some 7, val = ''b''\<rparr>],
        refs = [Some 1, Some 0, Some 2, Some 0, Some 1, Some 2, Some 3, Some 2, Some 1, Some 3],
        m_head = Some 0, m_tail = Some 1, m_size = 2\<rparr> =
     Some (Inr (\<lparr>nodes = [\<lparr>next = Some 2, prev = None, val = ''''\<rparr>,
                \<lparr>next = None, prev = Some 9, val = ''''\<rparr>,
                \<lparr>next = Some 6, prev = Some 3, val = ''a''\<rparr>,
                \<lparr>next = Some 8, prev = Some 7, val = ''b''\<rparr>],
        refs = [Some 1, Some 0, Some 1, Some 0, Some 1, Some 2, Some 3, Some 0, Some 1, Some 0],
        m_head = Some 0, m_tail = Some 1, m_size = 0\<rparr>, [(Some 2, ''a''), (Some 3, ''b'')])) \<and>
   size_of \<lparr>nodes = [\<lparr>next = Some 2, prev = None, val = ''''\<rparr>,
                \<lparr>next = None, prev = Some 9, val = ''''\<rparr>,
                \<lparr>next = Some 6, prev = Some 3, val = ''a''\<rparr>,
                \<lparr>next = Some 8, prev = Some 7, val = ''b''\<rparr>],
        refs = [Some 1, Some 0, Some 1, Some 0, Some 1, Some 2, Some 3, Some 0, Some 1, Some 0],
        m_head = Some 0, m_tail = Some 1, m_size = 0\<rparr> = 0 \<and>
   next_ptr \<lparr>nodes = [\<lparr>next = Some 2, prev = None, val = ''''\<rparr>,
                \<lparr>next = None, prev = Some 9, val = ''''\<rparr>,
                \<lparr>next = Some 6, prev = Some 3, val = ''a''\<rparr>,
                \<lparr>next = Some 8, prev = Some 7, val = ''b''\<rparr>],
        refs = [Some 1, Some 0, Some 1, Some 0, Some 1, Some 2, Some 3, Some 0, Some 1, Some 0],
        m_head = Some 0, m_tail = Some 1, m_size = 0\<rparr> (Some 0) = Inr (Some 1) \<and>
   prev_ptr \<lparr>nodes = [\<lparr>next = Some 2, prev = None, val = ''''\<rparr>,
                \<lparr>next = None, prev = Some 9, val = ''''\<rparr>,
                \<lparr>next = Some 6, prev = Some 3, val = ''a''\<rparr>,
                \<lparr>next = Some 8, prev = Some 7, val = ''b''\<rparr>],
        refs = [Some 1, Some 0, Some 1, Some 0, Some 1, Some 2, Some 3, Some 0, Some 1, Some 0],
        m_head = Some 0, m_tail = Some 1, m_size = 0\<rparr> (Some 1) = Inr (Some 0)"
proof -
  have r: "reachable \<lparr>nodes = [\<lparr>next = Some 2, prev = None, val = ''''\<rparr>,
                \<lparr>next = None, prev = Some 9, val = ''''\<rparr>,
                \<lparr>next = Some 6, prev = Some 3, val = ''a''\<rparr>,
                \<lparr>next = Some 8, prev = Some 7, val = ''b''\<rparr>],
        refs = [Some 1, Some 0, Some 2, Some 0, Some 1, Some 2, Some 3, Some 2, Some 1, Some 3],
        m_head = Some 0, m_tail = Some 1, m_size = 2\<rparr>"
    by (rule reachable_init[OF init_two])
  have l: "erase_loop (\<lambda>v. True) \<lparr>nodes = [\<lparr>next = Some 2, prev = None, val = ''''\<rparr>,
                \<lparr>next = None, prev = Some 9, val = ''''\<rparr>,
                \<lparr>next = Some 6, prev = Some 3, val = ''a''\<rparr>,
                \<lparr>next = Some 8, prev = Some 7, val = ''b''\<rparr>],
        refs = [Some 1, Some 0, Some 2, Some 0, Some 1, Some 2, Some 3, Some 2, Some 1, Some 3],
        m_head = Some 0, m_tail = Some 1, m_size = 2\<rparr> =
     Some (Inr (\<lparr>nodes = [\<lparr>next = Some 2, prev = None, val = ''''\<rparr>,
                \<lparr>next = None, prev = Some 9, val = ''''\<rparr>,
                \<lparr>next = Some 6, prev = Some 3, val = ''a''\<rparr>,
                \<lparr>next = Some 8, prev = Some 7, val = ''b''\<rparr>],
        refs = [Some 1, Some 0, Some 1, Some 0, Some 1, Some 2, Some 3, Some 0, Some 1, Some 0],
        m_head = Some 0, m_tail = Some 1, m_size = 0\<rparr>, [(Some 2, ''a''), (Some 3, ''b'')]))"
    by code_simp
  from erase_all_while_iterating[OF r] obtain s' tr where
    "erase_loop (\<lambda>v. True) \<lparr>nodes = [\<lparr>next = Some 2, prev = None, val = ''''\<rparr>,
                \<lparr>next = None, prev = Some 9, val = ''''\<rparr>,
                \<lparr>next = Some 6, prev = Some 3, val = ''a''\<rparr>,
                \<lparr>next = Some 8, prev = Some 7, val = ''b''\<rparr>],
        refs = [Some 1, Some 0, Some 2, Some 0, Some 1, Some 2, Some 3, Some 2, Some 1, Some 3],
        m_head = Some 0, m_tail = Some 1, m_size = 2\<rparr> = Some (Inr (s', tr))"
    "size_of s' = 0"
    "m_head s' = m_head \<lparr>nodes = [\<lparr>next = Some 2, prev = None, val = ''''\<rparr>,
                \<lparr>next = None, prev = Some 9, val = ''''\<rparr>,
                \<lparr>next = Some 6, prev = Some 3, val = ''a''\<rparr>,
                \<lparr>next = Some 8, prev = Some 7, val = ''b''\<rparr>],
        refs = [Some 1, Some 0, Some 2, Some 0, Some 1, Some 2, Some 3, Some 2, Some 1, Some 3],
        m_head = Some 0, m_tail = Some 1, m_size = 2\<rparr>"
    "m_tail s' = m_tail \<lparr>nodes = [\<lparr>next = Some 2, prev = None, val = ''''\<rparr>,
                \<lparr>next = None, prev = Some 9, val = ''''\<rparr>,
                \<lparr>next = Some 6, prev = Some 3, val = ''a''\<rparr>,
                \<lparr>next = Some 8, prev = Some 7, val = ''b''\<rparr>],
        refs = [Some 1, Some 0, Some 2, Some 0, Some 1, Some 2, Some 3, Some 2, Some 1, Some 3],
        m_head = Some 0, m_tail = Some 1, m_size = 2\<rparr>"
    "next_ptr s' (m_head s') = Inr (m_tail s')" "prev_ptr s' (m_tail s') = Inr (m_head s')"
    by blast
  then show ?thesis using r l by simp
qed

text \<open>
  C9. \<^verbatim>\<open>link\<close> allocates: on any two nodes of the store it appends two cells,
  gives the first node the first of them as its forward cell and the second node the
  other as its backward cell, and writes to no cell that existed before.
  So \<^verbatim>\<open>emplace_back\<close> (and \<^verbatim>\<open>push_back\<close>) on a reachable list, with last node
  \<open>l\<close>: the forward cell \<open>c\<close> that \<open>l\<close> had is not written, it still holds the tail
  sentinel; \<open>l\<close> gets a cell \<open>c'\<close> that did not exist before, which holds the new
  node. The same happens to the backward cell of the tail sentinel. Whoever kept the
  old cell \<open>c\<close> reads the tail sentinel from it, not the new node that now follows
  \<open>l\<close>.
\<close>

theorem push_back_replaces_cells:
  assumes "reachable s"
  shows "(\<forall>a b. a < length (nodes s) \<longrightarrow> b < length (nodes s) \<longrightarrow>
            (\<exists>s1. link s (Some a) (Some b) = Inr s1 \<and>
               refs s1 = refs s @ [Some b, Some a] \<and>
               nextc s1 a = Some (length (refs s)) \<and>
               prevc s1 b = Some (Suc (length (refs s))))) \<and>
         (\<exists>l t c d s' n c' d'.
            m_tail s = Some t \<and> prev_ptr s (m_tail s) = Inr (Some l) \<and>
            nextc s l = Some c \<and> ref_at s (Some c) = Inr (Some t) \<and>
            prevc s t = Some d \<and> ref_at s (Some d) = Inr (Some l) \<and>
            emplace_back s v = Inr (s', Some n) \<and> push_back s v = Inr s' \<and> n \<noteq> t \<and>
            nextc s' l = Some c' \<and> c' \<noteq> c \<and> length (refs s) \<le> c' \<and>
            ref_at s' (Some c') = Inr (Some n) \<and> ref_at s' (Some c) = Inr (Some t) \<and>
            prevc s' t = Some d' \<and> d' \<noteq> d \<and> length (refs s) \<le> d' \<and>
            ref_at s' (Some d') = Inr (Some n) \<and> ref_at s' (Some d) = Inr (Some l) \<and>
            operator_incr s' (Some l) = Inr (Some n))"
proof
  show "\<forall>a b. a < length (nodes s) \<longrightarrow> b < length (nodes s) \<longrightarrow>
            (\<exists>s1. link s (Some a) (Some b) = Inr s1 \<and>
               refs s1 = refs s @ [Some b, Some a] \<and>
               nextc s1 a = Some (length (refs s)) \<and>
               prevc s1 b = Some (Suc (length (refs s))))"
    by (simp add: link_def make_shared_Ref_def set_next_def set_prev_def nextc_def prevc_def
        nth_list_update)
next
  obtain h ns t where inv: "chain_inv s h ns t"
    using reachable_chain[OF assms(1)] by blast
  define l where "l = last (h # ns)"
  define n where "n = length (nodes s)"
  define c0 where "c0 = length (refs s)"
  have lk: "linked s l t" unfolding l_def by (rule chain_inv_last_linked[OF inv])
  have t: "m_tail s = Some t" using inv by (simp add: chain_inv_def)
  have b: "l < length (nodes s)" "t < length (nodes s)" "prev_ptr s (Some t) = Inr (Some l)"
    using lk linked_iff[of s l t] linked_def[of s l t] by blast+
  obtain c where c: "nextc s l = Some c" "c < c0" "refs s ! c = Some t"
    using lk unfolding c0_def by (auto simp: linked_iff)
  obtain d where d: "prevc s t = Some d" "d < c0" "refs s ! d = Some l"
    using lk unfolding c0_def by (auto simp: linked_iff)
  obtain s' where s': "emplace_back s v = Inr (s', Some n)"
    and r: "refs s' = refs s @ [Some n, Some l, Some t, Some n]"
      "\<forall>a<n. nextc s' a = (if a = l then Some c0 else nextc s a)"
      "\<forall>b<n. prevc s' b = (if b = t then Some (c0 + 3) else prevc s b)"
      "length (nodes s') = Suc n"
    using emplace_back_result[OF t b(3) b(1) b(2), of v] unfolding n_def c0_def by blast
  have nl: "nextc s' l = Some c0" and pt: "prevc s' t = Some (c0 + 3)"
    using r(2,3) b(1,2) unfolding n_def by simp_all
  have rd: "ref_at s' (Some c0) = Inr (Some n)" "ref_at s' (Some c) = Inr (Some t)"
    "ref_at s' (Some (c0 + 3)) = Inr (Some n)" "ref_at s' (Some d) = Inr (Some l)"
    using c(2,3) d(2,3) unfolding c0_def by (simp_all add: ref_at_def r(1) nth_append)
  have r0: "ref_at s (Some c) = Inr (Some t)" "ref_at s (Some d) = Inr (Some l)"
    using c(2,3) d(2,3) unfolding c0_def by (simp_all add: ref_at_def)
  have inc: "operator_incr s' (Some l) = Inr (Some n)"
    using nl r(1,4) b(1) unfolding operator_incr_def next_ptr_Some n_def c0_def
    by (simp add: nth_append)
  have pb: "push_back s v = Inr s'" using s' by (simp add: push_back_def)
  have "m_tail s = Some t \<and> prev_ptr s (m_tail s) = Inr (Some l) \<and>
            nextc s l = Some c \<and> ref_at s (Some c) = Inr (Some t) \<and>
            prevc s t = Some d \<and> ref_at s (Some d) = Inr (Some l) \<and>
            emplace_back s v = Inr (s', Some n) \<and> push_back s v = Inr s' \<and> n \<noteq> t \<and>
            nextc s' l = Some c0 \<and> c0 \<noteq> c \<and> length (refs s) \<le> c0 \<and>
            ref_at s' (Some c0) = Inr (Some n) \<and> ref_at s' (Some c) = Inr (Some t) \<and>
            prevc s' t = Some (c0 + 3) \<and> c0 + 3 \<noteq> d \<and> length (refs s) \<le> c0 + 3 \<and>
            ref_at s' (Some (c0 + 3)) = Inr (Some n) \<and> ref_at s' (Some d) = Inr (Some l) \<and>
            operator_incr s' (Some l) = Inr (Some n)"
    using t b c d s' pb nl pt rd r0 inc unfolding n_def c0_def by simp
  then show "\<exists>l t c d s' n c' d'.
            m_tail s = Some t \<and> prev_ptr s (m_tail s) = Inr (Some l) \<and>
            nextc s l = Some c \<and> ref_at s (Some c) = Inr (Some t) \<and>
            prevc s t = Some d \<and> ref_at s (Some d) = Inr (Some l) \<and>
            emplace_back s v = Inr (s', Some n) \<and> push_back s v = Inr s' \<and> n \<noteq> t \<and>
            nextc s' l = Some c' \<and> c' \<noteq> c \<and> length (refs s) \<le> c' \<and>
            ref_at s' (Some c') = Inr (Some n) \<and> ref_at s' (Some c) = Inr (Some t) \<and>
            prevc s' t = Some d' \<and> d' \<noteq> d \<and> length (refs s) \<le> d' \<and>
            ref_at s' (Some d') = Inr (Some n) \<and> ref_at s' (Some d) = Inr (Some l) \<and>
            operator_incr s' (Some l) = Inr (Some n)"
    by (intro exI)
qed

theorem push_back_replaces_cells_witness:
  "reachable \<lparr>nodes = [\<lparr>next = Some 2, prev = None, val = ''''\<rparr>,
                \<lparr>next = None, prev = Some 9, val = ''''\<rparr>,
                \<lparr>next = Some 6, prev = Some 3, val = ''a''\<rparr>,
                \<lparr>next = Some 8, prev = Some 7, val = ''b''\<rparr>],
        refs = [Some 1, Some 0, Some 2, Some 0, Some 1, Some 2, Some 3, Some 2, Some 1, Some 3],
        m_head = Some 0, m_tail = Some 1, m_size = 2\<rparr> \<and>
   (3::nat) < length (nodes \<lparr>nodes = [\<lparr>next = Some 2, prev = None, val = ''''\<rparr>,
                \<lparr>next = None, prev = Some 9, val = ''''\<rparr>,
                \<lparr>next = Some 6, prev = Some 3, val = ''a''\<rparr>,
                \<lparr>next = Some 8, prev = Some 7, val = ''b''\<rparr>],
        refs = [Some 1, Some 0, Some 2, Some 0, Some 1, Some 2, Some 3, Some 2, Some 1, Some 3],
        m_head = Some 0, m_tail = Some 1, m_size = 2\<rparr>) \<and>
   (1::nat) < length (nodes \<lparr>nodes = [\<lparr>next = Some 2, prev = None, val = ''''\<rparr>,
                \<lparr>next = None, prev = Some 9, val = ''''\<rparr>,
                \<lparr>next = Some 6, prev = Some 3, val = ''a''\<rparr>,
                \<lparr>next = Some 8, prev = Some 7, val = ''b''\<rparr>],
        refs = [Some 1, Some 0, Some 2, Some 0, Some 1, Some 2, Some 3, Some 2, Some 1, Some 3],
        m_head = Some 0, m_tail = Some 1, m_size = 2\<rparr>) \<and>
   nextc \<lparr>nodes = [\<lparr>next = Some 2, prev = None, val = ''''\<rparr>,
                \<lparr>next = None, prev = Some 9, val = ''''\<rparr>,
                \<lparr>next = Some 6, prev = Some 3, val = ''a''\<rparr>,
                \<lparr>next = Some 8, prev = Some 7, val = ''b''\<rparr>],
        refs = [Some 1, Some 0, Some 2, Some 0, Some 1, Some 2, Some 3, Some 2, Some 1, Some 3],
        m_head = Some 0, m_tail = Some 1, m_size = 2\<rparr> 3 = Some 8 \<and>
   ref_at \<lparr>nodes = [\<lparr>next = Some 2, prev = None, val = ''''\<rparr>,
                \<lparr>next = None, prev = Some 9, val = ''''\<rparr>,
                \<lparr>next = Some 6, prev = Some 3, val = ''a''\<rparr>,
                \<lparr>next = Some 8, prev = Some 7, val = ''b''\<rparr>],
        refs = [Some 1, Some 0, Some 2, Some 0, Some 1, Some 2, Some 3, Some 2, Some 1, Some 3],
        m_head = Some 0, m_tail = Some 1, m_size = 2\<rparr> (Some 8) = Inr (Some 1) \<and>
   (\<exists>s1. link \<lparr>nodes = [\<lparr>next = Some 2, prev = None, val = ''''\<rparr>,
                \<lparr>next = None, prev = Some 9, val = ''''\<rparr>,
                \<lparr>next = Some 6, prev = Some 3, val = ''a''\<rparr>,
                \<lparr>next = Some 8, prev = Some 7, val = ''b''\<rparr>],
        refs = [Some 1, Some 0, Some 2, Some 0, Some 1, Some 2, Some 3, Some 2, Some 1, Some 3],
        m_head = Some 0, m_tail = Some 1, m_size = 2\<rparr> (Some 3) (Some 1) = Inr s1 \<and>
      refs s1 = refs \<lparr>nodes = [\<lparr>next = Some 2, prev = None, val = ''''\<rparr>,
                \<lparr>next = None, prev = Some 9, val = ''''\<rparr>,
                \<lparr>next = Some 6, prev = Some 3, val = ''a''\<rparr>,
                \<lparr>next = Some 8, prev = Some 7, val = ''b''\<rparr>],
        refs = [Some 1, Some 0, Some 2, Some 0, Some 1, Some 2, Some 3, Some 2, Some 1, Some 3],
        m_head = Some 0, m_tail = Some 1, m_size = 2\<rparr> @ [Some 1, Some 3] \<and>
      nextc s1 3 = Some 10) \<and>
   emplace_back \<lparr>nodes = [\<lparr>next = Some 2, prev = None, val = ''''\<rparr>,
                \<lparr>next = None, prev = Some 9, val = ''''\<rparr>,
                \<lparr>next = Some 6, prev = Some 3, val = ''a''\<rparr>,
                \<lparr>next = Some 8, prev = Some 7, val = ''b''\<rparr>],
        refs = [Some 1, Some 0, Some 2, Some 0, Some 1, Some 2, Some 3, Some 2, Some 1, Some 3],
        m_head = Some 0, m_tail = Some 1, m_size = 2\<rparr> ''c'' =
     Inr (\<lparr>nodes = [\<lparr>next = Some 2, prev = None, val = ''''\<rparr>,
                \<lparr>next = None, prev = Some 13, val = ''''\<rparr>,
                \<lparr>next = Some 6, prev = Some 3, val = ''a''\<rparr>,
                \<lparr>next = Some 10, prev = Some 7, val = ''b''\<rparr>,
                \<lparr>next = Some 12, prev = Some 11, val = ''c''\<rparr>],
        refs = [Some 1, Some 0, Some 2, Some 0, Some 1, Some 2, Some 3, Some 2, Some 1, Some 3,
                Some 4, Some 3, Some 1, Some 4],
        m_head = Some 0, m_tail = Some 1, m_size = 3\<rparr>, Some 4) \<and>
   nextc \<lparr>nodes = [\<lparr>next = Some 2, prev = None, val = ''''\<rparr>,
                \<lparr>next = None, prev = Some 13, val = ''''\<rparr>,
                \<lparr>next = Some 6, prev = Some 3, val = ''a''\<rparr>,
                \<lparr>next = Some 10, prev = Some 7, val = ''b''\<rparr>,
                \<lparr>next = Some 12, prev = Some 11, val = ''c''\<rparr>],
        refs = [Some 1, Some 0, Some 2, Some 0, Some 1, Some 2, Some 3, Some 2, Some 1, Some 3,
                Some 4, Some 3, Some 1, Some 4],
        m_head = Some 0, m_tail = Some 1, m_size = 3\<rparr> 3 = Some 10 \<and>
   ref_at \<lparr>nodes = [\<lparr>next = Some 2, prev = None, val = ''''\<rparr>,
                \<lparr>next = None, prev = Some 13, val = ''''\<rparr>,
                \<lparr>next = Some 6, prev = Some 3, val = ''a''\<rparr>,
                \<lparr>next = Some 10, prev = Some 7, val = ''b''\<rparr>,
                \<lparr>next = Some 12, prev = Some 11, val = ''c''\<rparr>],
        refs = [Some 1, Some 0, Some 2, Some 0, Some 1, Some 2, Some 3, Some 2, Some 1, Some 3,
                Some 4, Some 3, Some 1, Some 4],
        m_head = Some 0, m_tail = Some 1, m_size = 3\<rparr> (Some 10) = Inr (Some 4) \<and>
   ref_at \<lparr>nodes = [\<lparr>next = Some 2, prev = None, val = ''''\<rparr>,
                \<lparr>next = None, prev = Some 13, val = ''''\<rparr>,
                \<lparr>next = Some 6, prev = Some 3, val = ''a''\<rparr>,
                \<lparr>next = Some 10, prev = Some 7, val = ''b''\<rparr>,
                \<lparr>next = Some 12, prev = Some 11, val = ''c''\<rparr>],
        refs = [Some 1, Some 0, Some 2, Some 0, Some 1, Some 2, Some 3, Some 2, Some 1, Some 3,
                Some 4, Some 3, Some 1, Some 4],
        m_head = Some 0, m_tail = Some 1, m_size = 3\<rparr> (Some 8) = Inr (Some 1)"
proof -
  have r: "reachable \<lparr>nodes = [\<lparr>next = Some 2, prev = None, val = ''''\<rparr>,
                \<lparr>next = None, prev = Some 9, val = ''''\<rparr>,
                \<lparr>next = Some 6, prev = Some 3, val = ''a''\<rparr>,
                \<lparr>next = Some 8, prev = Some 7, val = ''b''\<rparr>],
        refs = [Some 1, Some 0, Some 2, Some 0, Some 1, Some 2, Some 3, Some 2, Some 1, Some 3],
        m_head = Some 0, m_tail = Some 1, m_size = 2\<rparr>"
    by (rule reachable_init[OF init_two])
  have len: "length (refs \<lparr>nodes = [\<lparr>next = Some 2, prev = None, val = ''''\<rparr>,
                \<lparr>next = None, prev = Some 9, val = ''''\<rparr>,
                \<lparr>next = Some 6, prev = Some 3, val = ''a''\<rparr>,
                \<lparr>next = Some 8, prev = Some 7, val = ''b''\<rparr>],
        refs = [Some 1, Some 0, Some 2, Some 0, Some 1, Some 2, Some 3, Some 2, Some 1, Some 3],
        m_head = Some 0, m_tail = Some 1, m_size = 2\<rparr>) = 10"
    by simp
  have bd: "(3::nat) < length (nodes \<lparr>nodes = [\<lparr>next = Some 2, prev = None, val = ''''\<rparr>,
                \<lparr>next = None, prev = Some 9, val = ''''\<rparr>,
                \<lparr>next = Some 6, prev = Some 3, val = ''a''\<rparr>,
                \<lparr>next = Some 8, prev = Some 7, val = ''b''\<rparr>],
        refs = [Some 1, Some 0, Some 2, Some 0, Some 1, Some 2, Some 3, Some 2, Some 1, Some 3],
        m_head = Some 0, m_tail = Some 1, m_size = 2\<rparr>)"
    "(1::nat) < length (nodes \<lparr>nodes = [\<lparr>next = Some 2, prev = None, val = ''''\<rparr>,
                \<lparr>next = None, prev = Some 9, val = ''''\<rparr>,
                \<lparr>next = Some 6, prev = Some 3, val = ''a''\<rparr>,
                \<lparr>next = Some 8, prev = Some 7, val = ''b''\<rparr>],
        refs = [Some 1, Some 0, Some 2, Some 0, Some 1, Some 2, Some 3, Some 2, Some 1, Some 3],
        m_head = Some 0, m_tail = Some 1, m_size = 2\<rparr>)"
    by simp_all
  from conjunct1[OF push_back_replaces_cells[OF r, of "''c''"], rule_format, OF bd]
  obtain s1 where s1: "link \<lparr>nodes = [\<lparr>next = Some 2, prev = None, val = ''''\<rparr>,
                \<lparr>next = None, prev = Some 9, val = ''''\<rparr>,
                \<lparr>next = Some 6, prev = Some 3, val = ''a''\<rparr>,
                \<lparr>next = Some 8, prev = Some 7, val = ''b''\<rparr>],
        refs = [Some 1, Some 0, Some 2, Some 0, Some 1, Some 2, Some 3, Some 2, Some 1, Some 3],
        m_head = Some 0, m_tail = Some 1, m_size = 2\<rparr> (Some 3) (Some 1) = Inr s1"
      "refs s1 = refs \<lparr>nodes = [\<lparr>next = Some 2, prev = None, val = ''''\<rparr>,
                \<lparr>next = None, prev = Some 9, val = ''''\<rparr>,
                \<lparr>next = Some 6, prev = Some 3, val = ''a''\<rparr>,
                \<lparr>next = Some 8, prev = Some 7, val = ''b''\<rparr>],
        refs = [Some 1, Some 0, Some 2, Some 0, Some 1, Some 2, Some 3, Some 2, Some 1, Some 3],
        m_head = Some 0, m_tail = Some 1, m_size = 2\<rparr> @ [Some 1, Some 3]"
      "nextc s1 3 = Some (length (refs \<lparr>nodes = [\<lparr>next = Some 2, prev = None, val = ''''\<rparr>,
                \<lparr>next = None, prev = Some 9, val = ''''\<rparr>,
                \<lparr>next = Some 6, prev = Some 3, val = ''a''\<rparr>,
                \<lparr>next = Some 8, prev = Some 7, val = ''b''\<rparr>],
        refs = [Some 1, Some 0, Some 2, Some 0, Some 1, Some 2, Some 3, Some 2, Some 1, Some 3],
        m_head = Some 0, m_tail = Some 1, m_size = 2\<rparr>))"
    by blast
  have k: "\<exists>s1. link \<lparr>nodes = [\<lparr>next = Some 2, prev = None, val = ''''\<rparr>,
                \<lparr>next = None, prev = Some 9, val = ''''\<rparr>,
                \<lparr>next = Some 6, prev = Some 3, val = ''a''\<rparr>,
                \<lparr>next = Some 8, prev = Some 7, val = ''b''\<rparr>],
        refs = [Some 1, Some 0, Some 2, Some 0, Some 1, Some 2, Some 3, Some 2, Some 1, Some 3],
        m_head = Some 0, m_tail = Some 1, m_size = 2\<rparr> (Some 3) (Some 1) = Inr s1 \<and>
      refs s1 = refs \<lparr>nodes = [\<lparr>next = Some 2, prev = None, val = ''''\<rparr>,
                \<lparr>next = None, prev = Some 9, val = ''''\<rparr>,
                \<lparr>next = Some 6, prev = Some 3, val = ''a''\<rparr>,
                \<lparr>next = Some 8, prev = Some 7, val = ''b''\<rparr>],
        refs = [Some 1, Some 0, Some 2, Some 0, Some 1, Some 2, Some 3, Some 2, Some 1, Some 3],
        m_head = Some 0, m_tail = Some 1, m_size = 2\<rparr> @ [Some 1, Some 3] \<and>
      nextc s1 3 = Some 10"
    using s1 unfolding len by blast
  have e: "emplace_back \<lparr>nodes = [\<lparr>next = Some 2, prev = None, val = ''''\<rparr>,
                \<lparr>next = None, prev = Some 9, val = ''''\<rparr>,
                \<lparr>next = Some 6, prev = Some 3, val = ''a''\<rparr>,
                \<lparr>next = Some 8, prev = Some 7, val = ''b''\<rparr>],
        refs = [Some 1, Some 0, Some 2, Some 0, Some 1, Some 2, Some 3, Some 2, Some 1, Some 3],
        m_head = Some 0, m_tail = Some 1, m_size = 2\<rparr> ''c'' =
     Inr (\<lparr>nodes = [\<lparr>next = Some 2, prev = None, val = ''''\<rparr>,
                \<lparr>next = None, prev = Some 13, val = ''''\<rparr>,
                \<lparr>next = Some 6, prev = Some 3, val = ''a''\<rparr>,
                \<lparr>next = Some 10, prev = Some 7, val = ''b''\<rparr>,
                \<lparr>next = Some 12, prev = Some 11, val = ''c''\<rparr>],
        refs = [Some 1, Some 0, Some 2, Some 0, Some 1, Some 2, Some 3, Some 2, Some 1, Some 3,
                Some 4, Some 3, Some 1, Some 4],
        m_head = Some 0, m_tail = Some 1, m_size = 3\<rparr>, Some 4)"
    by code_simp
  have f: "nextc \<lparr>nodes = [\<lparr>next = Some 2, prev = None, val = ''''\<rparr>,
                \<lparr>next = None, prev = Some 9, val = ''''\<rparr>,
                \<lparr>next = Some 6, prev = Some 3, val = ''a''\<rparr>,
                \<lparr>next = Some 8, prev = Some 7, val = ''b''\<rparr>],
        refs = [Some 1, Some 0, Some 2, Some 0, Some 1, Some 2, Some 3, Some 2, Some 1, Some 3],
        m_head = Some 0, m_tail = Some 1, m_size = 2\<rparr> 3 = Some 8"
   "ref_at \<lparr>nodes = [\<lparr>next = Some 2, prev = None, val = ''''\<rparr>,
                \<lparr>next = None, prev = Some 9, val = ''''\<rparr>,
                \<lparr>next = Some 6, prev = Some 3, val = ''a''\<rparr>,
                \<lparr>next = Some 8, prev = Some 7, val = ''b''\<rparr>],
        refs = [Some 1, Some 0, Some 2, Some 0, Some 1, Some 2, Some 3, Some 2, Some 1, Some 3],
        m_head = Some 0, m_tail = Some 1, m_size = 2\<rparr> (Some 8) = Inr (Some 1)"
   "nextc \<lparr>nodes = [\<lparr>next = Some 2, prev = None, val = ''''\<rparr>,
                \<lparr>next = None, prev = Some 13, val = ''''\<rparr>,
                \<lparr>next = Some 6, prev = Some 3, val = ''a''\<rparr>,
                \<lparr>next = Some 10, prev = Some 7, val = ''b''\<rparr>,
                \<lparr>next = Some 12, prev = Some 11, val = ''c''\<rparr>],
        refs = [Some 1, Some 0, Some 2, Some 0, Some 1, Some 2, Some 3, Some 2, Some 1, Some 3,
                Some 4, Some 3, Some 1, Some 4],
        m_head = Some 0, m_tail = Some 1, m_size = 3\<rparr> 3 = Some 10"
   "ref_at \<lparr>nodes = [\<lparr>next = Some 2, prev = None, val = ''''\<rparr>,
                \<lparr>next = None, prev = Some 13, val = ''''\<rparr>,
                \<lparr>next = Some 6, prev = Some 3, val = ''a''\<rparr>,
                \<lparr>next = Some 10, prev = Some 7, val = ''b''\<rparr>,
                \<lparr>next = Some 12, prev = Some 11, val = ''c''\<rparr>],
        refs = [Some 1, Some 0, Some 2, Some 0, Some 1, Some 2, Some 3, Some 2, Some 1, Some 3,
                Some 4, Some 3, Some 1, Some 4],
        m_head = Some 0, m_tail = Some 1, m_size = 3\<rparr> (Some 10) = Inr (Some 4)"
   "ref_at \<lparr>nodes = [\<lparr>next = Some 2, prev = None, val = ''''\<rparr>,
                \<lparr>next = None, prev = Some 13, val = ''''\<rparr>,
                \<lparr>next = Some 6, prev = Some 3, val = ''a''\<rparr>,
                \<lparr>next = Some 10, prev = Some 7, val = ''b''\<rparr>,
                \<lparr>next = Some 12, prev = Some 11, val = ''c''\<rparr>],
        refs = [Some 1, Some 0, Some 2, Some 0, Some 1, Some 2, Some 3, Some 2, Some 1, Some 3,
                Some 4, Some 3, Some 1, Some 4],
        m_head = Some 0, m_tail = Some 1, m_size = 3\<rparr> (Some 8) = Inr (Some 1)"
    by code_simp+
  show ?thesis
    using r bd k e f by (intro conjI)
qed

end
